theory Spec2Isabelle
  imports Complex_Main
begin

section \<open>JavaScript values\<close>

text \<open>
  A JavaScript string is a sequence of UTF-16 code units; \<open>length\<close>, \<open>split\<close> and
  \<open>trim\<close> all work on code units. The model keeps a string as the list of its code
  units. \<open>ustr\<close> embeds a literal of the program text.
\<close>

type_synonym jsstring = "nat list"

definition ustr :: "string \<Rightarrow> jsstring" where
  "ustr s = map of_char s"

text \<open>
  Node parameters and API payloads are JSON data. An object keeps its properties in
  insertion order; a property read is the first binding of the key (\<open>map_of\<close>), and a
  missing property reads as \<open>undefined\<close> (\<open>None\<close>).
\<close>

datatype jsvalue =
    JNull
  | JBool bool
  | JNum rat
  | JStr jsstring
  | JArr "jsvalue list"
  | JObj "(jsstring \<times> jsvalue) list"

type_synonym jsobject = "(jsstring \<times> jsvalue) list"

text \<open>The truthiness test of \<open>if (x)\<close>, with \<open>None\<close> for \<open>undefined\<close>.\<close>

fun truthy :: "jsvalue option \<Rightarrow> bool" where
  "truthy None = False"
| "truthy (Some JNull) = False"
| "truthy (Some (JBool b)) = b"
| "truthy (Some (JNum q)) = (q \<noteq> 0)"
| "truthy (Some (JStr s)) = (s \<noteq> [])"
| "truthy (Some (JArr xs)) = True"
| "truthy (Some (JObj fs)) = True"

text \<open>\<open>obj[k] = v\<close>: an existing property keeps its position, a new one goes last.\<close>

fun set_prop :: "jsobject \<Rightarrow> jsstring \<Rightarrow> jsvalue \<Rightarrow> jsobject" where
  "set_prop [] k v = [(k, v)]"
| "set_prop ((k', v') # fs) k v =
     (if k' = k then (k, v) # fs else (k', v') # set_prop fs k v)"

section \<open>Strings: decimal rendering, join, split, trim\<close>

text \<open>\<open>String(n)\<close> for a non-negative integer: its decimal digits.\<close>

fun digits_of :: "nat \<Rightarrow> jsstring" where
  "digits_of n = (if n < 10 then [48 + n] else digits_of (n div 10) @ [48 + n mod 10])"

declare digits_of.simps [simp del]

text \<open>\<open>Array.prototype.join(sep)\<close> on an array of strings.\<close>

fun js_join :: "jsstring \<Rightarrow> jsstring list \<Rightarrow> jsstring" where
  "js_join sep [] = []"
| "js_join sep [x] = x"
| "js_join sep (x # y # ys) = x @ sep @ js_join sep (y # ys)"

text \<open>
  \<open>s.split(',')\<close>: the pieces between the separators, in order; a string without a
  separator (the empty string too) is one piece.
\<close>

fun js_split :: "nat \<Rightarrow> jsstring \<Rightarrow> jsstring list" where
  "js_split sep [] = [[]]"
| "js_split sep (c # cs) =
     (if c = sep then [] # js_split sep cs
      else (case js_split sep cs of [] \<Rightarrow> [[c]] | p # ps \<Rightarrow> (c # p) # ps))"

text \<open>
  \<open>s.trim()\<close> removes leading and trailing WhiteSpace and LineTerminator code units
  (ECMAScript: TAB, VT, FF, SP, NBSP, ZWNBSP, the Unicode space separators, LF, CR, LS, PS).
\<close>

definition is_space :: "nat \<Rightarrow> bool" where
  "is_space c \<longleftrightarrow>
     c = 0x09 \<or> c = 0x0A \<or> c = 0x0B \<or> c = 0x0C \<or> c = 0x0D \<or> c = 0x20 \<or> c = 0xA0 \<or>
     c = 0x1680 \<or> (0x2000 \<le> c \<and> c \<le> 0x200A) \<or> c = 0x2028 \<or> c = 0x2029 \<or>
     c = 0x202F \<or> c = 0x205F \<or> c = 0x3000 \<or> c = 0xFEFF"

definition trim :: "jsstring \<Rightarrow> jsstring" where
  "trim s = rev (dropWhile is_space (rev (dropWhile is_space s)))"

section \<open>The schema library\<close>

text \<open>
  Modelled from the spec: the schema library \<open>zod\<close> is a dependency of the repository
  and is not part of its sources; \<open>zparse\<close> below is the \<open>parse\<close> of the schema
  combinators that \<open>YouDotCom.schemas.ts\<close> uses, as the specification describes the
  Validator: every applicable field is checked and the violations of all of them are
  returned together, in field order; range checks are inclusive; enum checks are exact
  string matches; there is no coercion between types; an absent optional field stays
  absent; an object schema drops unknown keys unless it is marked \<open>passthrough\<close>, which
  keeps them unchanged after the declared ones.

  A violation carries the path of the offending value, a message and a kind token. The
  wording of messages and tokens and the test for a syntactically valid URL belong to the
  library; they are parameters of the model.
\<close>

datatype pathseg = PKey jsstring | PIdx nat

record issue =
  path :: "pathseg list"
  message :: jsstring
  code :: jsstring

datatype issue_kind =
    InvalidType
  | NotInteger
  | TooSmall rat
  | TooBig rat
  | InvalidEnumValue "jsstring list"
  | InvalidUrl

record zod =
  is_url :: "jsstring \<Rightarrow> bool"
  zmessage :: "issue_kind \<Rightarrow> jsvalue option \<Rightarrow> jsstring"
  zcode :: "issue_kind \<Rightarrow> jsstring"

definition mk_issue :: "zod \<Rightarrow> pathseg list \<Rightarrow> issue_kind \<Rightarrow> jsvalue option \<Rightarrow> issue" where
  "mk_issue z p k received = \<lparr>path = p, message = zmessage z k received, code = zcode z k\<rparr>"

datatype number_check = IsInt | MinValue rat | MaxValue rat

datatype unknown_keys = Strip | Passthrough

datatype schema =
    ZString
  | ZStringUrl
  | ZNumber "number_check list"
  | ZEnum "jsstring list"
  | ZUnknown
  | ZArray schema
  | ZRecord schema
  | ZOptional schema
  | ZObject "(jsstring \<times> schema) list" unknown_keys

text \<open>The checks of a number schema all run; each failing one adds its violation.\<close>

fun check_number :: "zod \<Rightarrow> pathseg list \<Rightarrow> rat \<Rightarrow> number_check \<Rightarrow> issue list" where
  "check_number z p q IsInt =
     (if of_int (floor q) = q then [] else [mk_issue z p NotInteger (Some (JNum q))])"
| "check_number z p q (MinValue m) =
     (if q < m then [mk_issue z p (TooSmall m) (Some (JNum q))] else [])"
| "check_number z p q (MaxValue m) =
     (if m < q then [mk_issue z p (TooBig m) (Some (JNum q))] else [])"

text \<open>A schema accepts a missing value when it is optional (or \<open>unknown\<close>).\<close>

fun accepts_undefined :: "schema \<Rightarrow> bool" where
  "accepts_undefined (ZOptional s) = True"
| "accepts_undefined ZUnknown = True"
| "accepts_undefined s = False"

text \<open>
  The outcome of one element or field: its violations (empty when it is accepted) and
  the value it contributes to the output (\<open>None\<close> when it is rejected or absent).
\<close>

fun outcome :: "issue list + jsvalue \<Rightarrow> issue list \<times> jsvalue option" where
  "outcome (Inl is) = (is, None)"
| "outcome (Inr v) = ([], Some v)"

text \<open>The properties of the validated object: the keys whose field contributed a value.\<close>

definition kept :: "(jsstring \<times> issue list \<times> jsvalue option) list \<Rightarrow> jsobject" where
  "kept rs = concat (map (\<lambda>(k, is, r). case r of None \<Rightarrow> [] | Some v \<Rightarrow> [(k, v)]) rs)"

text \<open>
  Modelled from the spec: the validation of a value against a schema, which is code of the
  library \<open>zod\<close> and not under the sources. A value of the wrong type is one violation
  at the current path; the checks of a number all run; the elements of an array and the
  declared fields of an object are all validated, each below its index or key, and their
  violations are concatenated in order; a missing field is a violation unless its schema
  accepts a missing value.
\<close>

fun zparse :: "zod \<Rightarrow> schema \<Rightarrow> pathseg list \<Rightarrow> jsvalue \<Rightarrow> issue list + jsvalue" where
  "zparse z ZString p v =
     (case v of JStr s \<Rightarrow> Inr v | _ \<Rightarrow> Inl [mk_issue z p InvalidType (Some v)])"
| "zparse z ZStringUrl p v =
     (case v of
        JStr s \<Rightarrow> if is_url z s then Inr v else Inl [mk_issue z p InvalidUrl (Some v)]
      | _ \<Rightarrow> Inl [mk_issue z p InvalidType (Some v)])"
| "zparse z (ZNumber checks) p v =
     (case v of
        JNum q \<Rightarrow>
          (let is = concat (map (check_number z p q) checks)
           in if is = [] then Inr v else Inl is)
      | _ \<Rightarrow> Inl [mk_issue z p InvalidType (Some v)])"
| "zparse z (ZEnum values) p v =
     (case v of
        JStr s \<Rightarrow>
          if s \<in> set values then Inr v else Inl [mk_issue z p (InvalidEnumValue values) (Some v)]
      | _ \<Rightarrow> Inl [mk_issue z p InvalidType (Some v)])"
| "zparse z ZUnknown p v = Inr v"
| "zparse z (ZOptional s) p v = zparse z s p v"
| "zparse z (ZArray s) p v =
     (case v of
        JArr xs \<Rightarrow>
          (let rs = map (\<lambda>(i, x). outcome (zparse z s (p @ [PIdx i]) x)) (enumerate 0 xs);
               is = concat (map fst rs)
           in if is = [] then Inr (JArr (concat (map (\<lambda>r. case snd r of None \<Rightarrow> [] | Some y \<Rightarrow> [y]) rs)))
              else Inl is)
      | _ \<Rightarrow> Inl [mk_issue z p InvalidType (Some v)])"
| "zparse z (ZRecord s) p v =
     (case v of
        JObj fs \<Rightarrow>
          (let rs = map (\<lambda>(k, x). (k, outcome (zparse z s (p @ [PKey k]) x))) fs;
               is = concat (map (\<lambda>r. fst (snd r)) rs)
           in if is = [] then Inr (JObj (kept rs)) else Inl is)
      | _ \<Rightarrow> Inl [mk_issue z p InvalidType (Some v)])"
| "zparse z (ZObject shape uk) p v =
     (case v of
        JObj fs \<Rightarrow>
          (let rs = map (\<lambda>(k, s).
                      (k, case map_of fs k of
                            None \<Rightarrow>
                              if accepts_undefined s then ([], None)
                              else ([mk_issue z (p @ [PKey k]) InvalidType None], None)
                          | Some x \<Rightarrow> outcome (zparse z s (p @ [PKey k]) x))) shape;
               is = concat (map (\<lambda>r. fst (snd r)) rs);
               extra = (case uk of
                          Strip \<Rightarrow> []
                        | Passthrough \<Rightarrow> filter (\<lambda>(k, x). k \<notin> set (map fst shape)) fs)
           in if is = [] then Inr (JObj (kept rs @ extra)) else Inl is)
      | _ \<Rightarrow> Inl [mk_issue z p InvalidType (Some v)])"

text \<open>\<open>schema.parse(x)\<close>: the validated value, or a \<open>ZodError\<close> with the violations.\<close>

definition parse :: "zod \<Rightarrow> schema \<Rightarrow> jsvalue \<Rightarrow> issue list + jsvalue" where
  "parse z s v = zparse z s [] v"

section \<open>The schemas of \<open>YouDotCom.schemas.ts\<close>\<close>

definition SearchOptionsSchema :: schema where
  "SearchOptionsSchema = ZObject
     [(ustr ''count'', ZOptional (ZNumber [IsInt, MinValue 1, MaxValue 100])),
      (ustr ''country'', ZOptional ZString),
      (ustr ''freshness'', ZOptional (ZEnum [ustr ''day'', ustr ''week'', ustr ''month'', ustr ''year''])),
      (ustr ''language'', ZOptional ZString),
      (ustr ''livecrawl'', ZOptional (ZEnum [ustr ''web'', ustr ''news'', ustr ''all''])),
      (ustr ''livecrawl_formats'', ZOptional (ZEnum [ustr ''html'', ustr ''markdown''])),
      (ustr ''offset'', ZOptional (ZNumber [IsInt, MinValue 0, MaxValue 9])),
      (ustr ''safesearch'', ZOptional (ZEnum [ustr ''off'', ustr ''moderate'', ustr ''strict'']))]
     Strip"

definition WebResultSchema :: schema where
  "WebResultSchema = ZObject
     [(ustr ''url'', ZString),
      (ustr ''title'', ZString),
      (ustr ''description'', ZString),
      (ustr ''snippets'', ZOptional (ZArray ZString)),
      (ustr ''page_age'', ZOptional ZString)]
     Passthrough"

definition NewsResultSchema :: schema where
  "NewsResultSchema = ZObject
     [(ustr ''url'', ZString),
      (ustr ''title'', ZString),
      (ustr ''description'', ZString),
      (ustr ''page_age'', ZOptional ZString)]
     Passthrough"

definition MetadataSchema :: schema where
  "MetadataSchema = ZObject
     [(ustr ''search_uuid'', ZOptional ZString),
      (ustr ''query'', ZOptional ZString),
      (ustr ''latency'', ZOptional (ZNumber []))]
     Passthrough"

definition SearchResponseSchema :: schema where
  "SearchResponseSchema = ZObject
     [(ustr ''results'', ZObject
         [(ustr ''web'', ZOptional (ZArray WebResultSchema)),
          (ustr ''news'', ZOptional (ZArray NewsResultSchema))]
         Passthrough),
      (ustr ''metadata'', ZOptional MetadataSchema)]
     Passthrough"

definition ContentsOptionsSchema :: schema where
  "ContentsOptionsSchema = ZObject
     [(ustr ''formats'', ZOptional (ZArray (ZEnum [ustr ''markdown'', ustr ''html'', ustr ''metadata'']))),
      (ustr ''crawl_timeout'', ZOptional (ZNumber [IsInt, MinValue 1, MaxValue 60]))]
     Strip"

definition ContentsResponseSchema :: schema where
  "ContentsResponseSchema = ZArray (ZObject
     [(ustr ''url'', ZStringUrl),
      (ustr ''markdown'', ZOptional ZString),
      (ustr ''html'', ZOptional ZString),
      (ustr ''metadata'', ZOptional (ZRecord ZUnknown))]
     Passthrough)"

section \<open>The host\<close>

text \<open>
  The workflow host is an external collaborator: it resolves the parameters of an item,
  performs the authenticated HTTP call, wraps results into output records and says
  whether a failing item stops the batch. Its functions are parameters of the model.
  A host call that throws returns \<open>Inl\<close> with the message of the error.
  \<open>httpRequestWithAuthentication\<close> is given the index of the item the call is made for,
  since the answer of the network is not a function of the request alone.
\<close>

record http_request =
  http_method :: jsstring
  url :: jsstring
  headers :: "(jsstring \<times> jsstring) list"
  qs :: "jsobject option"
  body :: "jsobject option"
  json_flag :: bool

record exec_data =
  json :: jsvalue
  pairedItem :: "nat option"

record host =
  inputLength :: nat
  continueOnFail :: bool
  getNodeParameter :: "jsstring \<Rightarrow> nat \<Rightarrow> jsstring + jsvalue"
  httpRequestWithAuthentication :: "nat \<Rightarrow> jsstring \<Rightarrow> http_request \<Rightarrow> jsstring + jsvalue"
  returnJsonArray :: "jsvalue \<Rightarrow> exec_data list"
  constructExecutionMetaData :: "exec_data list \<Rightarrow> nat \<Rightarrow> exec_data list"
  typeErrorMessage :: jsstring

text \<open>
  What a \<open>try\<close> block can catch: a \<open>ZodError\<close> with its issues, the
  \<open>NodeOperationError\<close> of the node (message and item index), or any other error, known
  by its message (an error of the host or the transport, a \<open>TypeError\<close>).
\<close>

datatype exn =
    ZodError "issue list"
  | NodeOperationError jsstring nat
  | Thrown jsstring

text \<open>
  The error that aborts the batch: \<open>new NodeApiError(node, errorResponse, {itemIndex})\<close>,
  whose error response is an object built by the node or the caught error itself.
\<close>

datatype error_response = ResponseObject jsobject | Caught exn

datatype node_api_error = NodeApiError error_response nat

section \<open>The node: \<open>YouDotCom.node.ts\<close>\<close>

definition USER_AGENT :: jsstring where
  "USER_AGENT = ustr ''n8n-nodes-youdotcom/0.2.5 (https://github.com/youdotcom-oss/n8n-nodes-youdotcom)''"

text \<open>\<open>options.k\<close> on a validated options object.\<close>

fun get_prop :: "jsvalue \<Rightarrow> jsstring \<Rightarrow> jsvalue option" where
  "get_prop (JObj fs) k = map_of fs k"
| "get_prop v k = None"

text \<open>\<open>if (options.k) target.k = options.k\<close>\<close>

definition copy_if_truthy :: "jsvalue \<Rightarrow> jsstring \<Rightarrow> jsobject \<Rightarrow> jsobject" where
  "copy_if_truthy options k target =
     (case get_prop options k of
        None \<Rightarrow> target
      | Some x \<Rightarrow> if truthy (Some x) then set_prop target k x else target)"

text \<open>\<open>if (options.k !== undefined) target.k = options.k\<close>\<close>

definition copy_if_defined :: "jsvalue \<Rightarrow> jsstring \<Rightarrow> jsobject \<Rightarrow> jsobject" where
  "copy_if_defined options k target =
     (case get_prop options k of None \<Rightarrow> target | Some x \<Rightarrow> set_prop target k x)"

text \<open>\<open>if (options.k && options.k.length > 0) target.k = options.k\<close>\<close>

fun js_length :: "jsvalue \<Rightarrow> nat option" where
  "js_length (JArr xs) = Some (length xs)"
| "js_length (JStr s) = Some (length s)"
| "js_length v = None"

definition copy_if_nonempty :: "jsvalue \<Rightarrow> jsstring \<Rightarrow> jsobject \<Rightarrow> jsobject" where
  "copy_if_nonempty options k target =
     (case get_prop options k of
        None \<Rightarrow> target
      | Some x \<Rightarrow>
          if truthy (Some x) \<and> (case js_length x of None \<Rightarrow> False | Some n \<Rightarrow> 0 < n)
          then set_prop target k x else target)"

text \<open>The query parameters of the search request (lines 448 to 457).\<close>

definition search_qs :: "jsvalue \<Rightarrow> jsvalue \<Rightarrow> jsobject" where
  "search_qs query options =
     (copy_if_truthy options (ustr ''safesearch'')
     (copy_if_defined options (ustr ''offset'')
     (copy_if_truthy options (ustr ''livecrawl_formats'')
     (copy_if_truthy options (ustr ''livecrawl'')
     (copy_if_truthy options (ustr ''language'')
     (copy_if_truthy options (ustr ''freshness'')
     (copy_if_truthy options (ustr ''country'')
     (copy_if_truthy options (ustr ''count'')
       [(ustr ''query'', query)]))))))))"

definition search_request :: "jsobject \<Rightarrow> http_request" where
  "search_request q =
     \<lparr>http_method = ustr ''GET'', url = ustr ''https://ydc-index.io/v1/search'',
      headers = [(ustr ''User-Agent'', USER_AGENT)], qs = Some q, body = None,
      json_flag = True\<rparr>"

text \<open>
  \<open>#executeSearch\<close>: the requests it issued, and the validated response or the error
  it threw.
\<close>

definition executeSearch :: "zod \<Rightarrow> host \<Rightarrow> nat \<Rightarrow> http_request list \<times> (exn + jsvalue)" where
  "executeSearch z h itemIndex =
     (case getNodeParameter h (ustr ''query'') itemIndex of
        Inl m \<Rightarrow> ([], Inl (Thrown m))
      | Inr query \<Rightarrow>
     (case getNodeParameter h (ustr ''searchOptions'') itemIndex of
        Inl m \<Rightarrow> ([], Inl (Thrown m))
      | Inr rawOptions \<Rightarrow>
     (case parse z SearchOptionsSchema rawOptions of
        Inl is \<Rightarrow> ([], Inl (ZodError is))
      | Inr options \<Rightarrow>
     (let rq = search_request (search_qs query options) in
      case httpRequestWithAuthentication h itemIndex (ustr ''youDotComApi'') rq of
        Inl m \<Rightarrow> ([rq], Inl (Thrown m))
      | Inr rawResponse \<Rightarrow>
     (case parse z SearchResponseSchema rawResponse of
        Inl is \<Rightarrow> ([rq], Inl (ZodError is))
      | Inr response \<Rightarrow> ([rq], Inr response))))))"

text \<open>The URL list of the contents request (lines 490 to 493).\<close>

definition parse_urls :: "jsstring \<Rightarrow> jsstring list" where
  "parse_urls urlsString = filter (\<lambda>url. 0 < length url) (map trim (js_split 44 urlsString))"

text \<open>The body of the contents request (lines 500 to 507).\<close>

definition contents_body :: "jsstring list \<Rightarrow> jsvalue \<Rightarrow> jsobject" where
  "contents_body urls options =
     (copy_if_truthy options (ustr ''crawl_timeout'')
     (copy_if_nonempty options (ustr ''formats'')
       [(ustr ''urls'', JArr (map JStr urls))]))"

definition contents_request :: "jsobject \<Rightarrow> http_request" where
  "contents_request b =
     \<lparr>http_method = ustr ''POST'', url = ustr ''https://ydc-index.io/v1/contents'',
      headers = [(ustr ''User-Agent'', USER_AGENT)], qs = None, body = Some b,
      json_flag = True\<rparr>"

text \<open>
  \<open>#executeContents\<close>. The \<open>urls\<close> parameter is declared a string; on any other
  value \<open>urlsString.split\<close> is not a function and the call throws a \<open>TypeError\<close>.
\<close>

definition executeContents :: "zod \<Rightarrow> host \<Rightarrow> nat \<Rightarrow> http_request list \<times> (exn + jsvalue)" where
  "executeContents z h itemIndex =
     (case getNodeParameter h (ustr ''urls'') itemIndex of
        Inl m \<Rightarrow> ([], Inl (Thrown m))
      | Inr urlsValue \<Rightarrow>
     (case getNodeParameter h (ustr ''contentsOptions'') itemIndex of
        Inl m \<Rightarrow> ([], Inl (Thrown m))
      | Inr rawOptions \<Rightarrow>
     (case parse z ContentsOptionsSchema rawOptions of
        Inl is \<Rightarrow> ([], Inl (ZodError is))
      | Inr options \<Rightarrow>
     (case urlsValue of
        JStr urlsString \<Rightarrow>
          (let urls = parse_urls urlsString in
           if length urls = 0
           then ([], Inl (NodeOperationError (ustr ''At least one URL is required'') itemIndex))
           else
             (let rq = contents_request (contents_body urls options) in
              case httpRequestWithAuthentication h itemIndex (ustr ''youDotComApi'') rq of
                Inl m \<Rightarrow> ([rq], Inl (Thrown m))
              | Inr rawResponse \<Rightarrow>
             (case parse z ContentsResponseSchema rawResponse of
                Inl is \<Rightarrow> ([rq], Inl (ZodError is))
              | Inr response \<Rightarrow> ([rq], Inr response))))
      | _ \<Rightarrow> ([], Inl (Thrown (typeErrorMessage h)))))))"

text \<open>\<open>issue.path.join('.')\<close>: a key stands for itself, an array index for its decimal digits.\<close>

fun seg_string :: "pathseg \<Rightarrow> jsstring" where
  "seg_string (PKey k) = k"
| "seg_string (PIdx n) = digits_of n"

definition join_path :: "pathseg list \<Rightarrow> jsstring" where
  "join_path p = js_join (ustr ''.'') (map seg_string p)"

text \<open>
  Line 393: the message of a validation error. \<open>a || 'root'\<close> is \<open>'root'\<close> when the
  joined path is the empty string.
\<close>

definition issue_line :: "nat \<Rightarrow> issue \<Rightarrow> jsstring" where
  "issue_line i e =
     ustr ''  '' @ digits_of (i + 1) @ ustr ''. '' @
     (if join_path (path e) = [] then ustr ''root'' else join_path (path e)) @
     ustr '': '' @ message e"

definition errorMessage :: "issue list \<Rightarrow> jsstring" where
  "errorMessage issues =
     ustr ''Validation error:'' @ [10] @
     js_join [10] (map (\<lambda>(i, e). issue_line i e) (enumerate 0 issues))"

text \<open>Lines 394 to 398.\<close>

definition serializedIssues :: "issue list \<Rightarrow> jsvalue list" where
  "serializedIssues issues =
     map (\<lambda>issue. JObj [(ustr ''path'', JStr (join_path (path issue))),
                        (ustr ''message'', JStr (message issue)),
                        (ustr ''code'', JStr (code issue))]) issues"

text \<open>The body of the \<open>try\<close> block for item \<open>i\<close> (lines 375 to 389).\<close>

definition try_item :: "zod \<Rightarrow> host \<Rightarrow> nat \<Rightarrow> http_request list \<times> (exn + exec_data list)" where
  "try_item z h i =
     (case getNodeParameter h (ustr ''operation'') i of
        Inl m \<Rightarrow> ([], Inl (Thrown m))
      | Inr operation \<Rightarrow>
          if operation = JStr (ustr ''search'') then
            (case executeSearch z h i of
               (calls, Inl e) \<Rightarrow> (calls, Inl e)
             | (calls, Inr response) \<Rightarrow>
                 (calls, Inr (constructExecutionMetaData h (returnJsonArray h response) i)))
          else if operation = JStr (ustr ''contents'') then
            (case executeContents z h i of
               (calls, Inl e) \<Rightarrow> (calls, Inl e)
             | (calls, Inr response) \<Rightarrow>
                 (calls, Inr (constructExecutionMetaData h (returnJsonArray h response) i)))
          else ([], Inr []))"

text \<open>
  The \<open>catch\<close> block for item \<open>i\<close> (lines 390 to 428): the record pushed to the
  output when the host continues on failure, the error thrown otherwise.
\<close>

fun catch_item :: "host \<Rightarrow> nat \<Rightarrow> exn \<Rightarrow> node_api_error + exec_data" where
  "catch_item h i (ZodError issues) =
     (if continueOnFail h
      then Inr \<lparr>json = JObj [(ustr ''error'', JStr (errorMessage issues)),
                            (ustr ''validationErrors'', JArr (serializedIssues issues))],
                pairedItem = Some i\<rparr>
      else Inl (NodeApiError
                  (ResponseObject [(ustr ''message'', JStr (errorMessage issues)),
                                   (ustr ''issues'', JArr (serializedIssues issues))]) i))"
| "catch_item h i (NodeOperationError m k) =
     (if continueOnFail h
      then Inr \<lparr>json = JObj [(ustr ''error'', JStr m)], pairedItem = Some i\<rparr>
      else Inl (NodeApiError (Caught (NodeOperationError m k)) i))"
| "catch_item h i (Thrown m) =
     (if continueOnFail h
      then Inr \<lparr>json = JObj [(ustr ''error'', JStr m)], pairedItem = Some i\<rparr>
      else Inl (NodeApiError (Caught (Thrown m)) i))"

text \<open>
  The loop of \<open>execute\<close> from item \<open>i\<close> on, with the requests issued and the records
  collected so far.
\<close>

function execute_from :: "zod \<Rightarrow> host \<Rightarrow> nat \<Rightarrow> http_request list \<Rightarrow> exec_data list \<Rightarrow>
    http_request list \<times> (node_api_error + exec_data list)" where
  "execute_from z h i calls returnData =
     (if i < inputLength h then
        (case try_item z h i of
           (cs, Inr executionData) \<Rightarrow>
             execute_from z h (Suc i) (calls @ cs) (returnData @ executionData)
         | (cs, Inl error) \<Rightarrow>
             (case catch_item h i error of
                Inr errorRecord \<Rightarrow> execute_from z h (Suc i) (calls @ cs) (returnData @ [errorRecord])
              | Inl thrown \<Rightarrow> (calls @ cs, Inl thrown)))
      else (calls, Inr returnData))"
  by pat_completeness auto
termination
  by (relation "measure (\<lambda>(z, h, i, calls, returnData). inputLength h - i)") auto

declare execute_from.simps [simp del]

text \<open>\<open>execute\<close> returns the one output branch \<open>[returnData]\<close>, or throws.\<close>

definition execute :: "zod \<Rightarrow> host \<Rightarrow> http_request list \<times> (node_api_error + exec_data list list)" where
  "execute z h =
     (case execute_from z h 0 [] [] of
        (calls, Inl thrown) \<Rightarrow> (calls, Inl thrown)
      | (calls, Inr returnData) \<Rightarrow> (calls, Inr [returnData]))"

section \<open>Auxiliary definitions\<close>

text \<open>
  The outcome of one declared field of an object schema, as \<open>zparse\<close> computes it:
  the key, the violations of the field and the value it contributes.
\<close>

definition field_result :: "zod \<Rightarrow> pathseg list \<Rightarrow> jsobject \<Rightarrow> jsstring \<times> schema \<Rightarrow>
    jsstring \<times> issue list \<times> jsvalue option" where
  "field_result z p fs = (\<lambda>(k, s).
     (k, case map_of fs k of
           None \<Rightarrow>
             if accepts_undefined s then ([], None)
             else ([mk_issue z (p @ [PKey k]) InvalidType None], None)
         | Some x \<Rightarrow> outcome (zparse z s (p @ [PKey k]) x)))"

text \<open>Schemas without object or record parts: what they accept, they return unchanged.\<close>

fun flat :: "schema \<Rightarrow> bool" where
  "flat (ZOptional s) = flat s"
| "flat (ZArray s) = flat s"
| "flat (ZRecord s) = False"
| "flat (ZObject shape uk) = False"
| "flat s = True"

text \<open>
  Schemas whose violations have paths made of declared, non-empty keys and array indices
  only: every declared key is non-empty and a record part has values that are never
  rejected.
\<close>

fun named_keys :: "schema \<Rightarrow> bool" where
  "named_keys (ZObject shape uk) = list_all (\<lambda>(k, s). k \<noteq> [] \<and> named_keys s) shape"
| "named_keys (ZArray s) = named_keys s"
| "named_keys (ZOptional s) = named_keys s"
| "named_keys (ZRecord s) = (s = ZUnknown)"
| "named_keys s = True"

text \<open>The path of a violation found below \<open>p\<close> extends \<open>p\<close> by non-empty segments.\<close>

definition good_path :: "pathseg list \<Rightarrow> issue \<Rightarrow> bool" where
  "good_path p e \<longleftrightarrow> (\<exists>q. path e = p @ q \<and> (\<forall>sg \<in> set q. seg_string sg \<noteq> []))"

text \<open>
  What item \<open>i\<close> adds to the output when the batch is not aborted: its result records,
  or the one error record of the \<open>catch\<close> block.
\<close>

definition item_output :: "zod \<Rightarrow> host \<Rightarrow> nat \<Rightarrow> exec_data list" where
  "item_output z h i =
     (case snd (try_item z h i) of
        Inr executionData \<Rightarrow> executionData
      | Inl error \<Rightarrow>
          (case catch_item h i error of Inr errorRecord \<Rightarrow> [errorRecord] | Inl thrown \<Rightarrow> []))"

section \<open>Example library, hosts and items\<close>

text \<open>
  A library instance and a host to evaluate the node on concrete items: the host
  resolves parameters from the item's own table, answers the HTTP call for item \<open>i\<close>
  with \<open>network i\<close>, wraps a response into one record per array element, and pairs each
  record with its item.
\<close>

definition example_zod :: zod where
  "example_zod =
     \<lparr>is_url = (\<lambda>s. take 8 s = ustr ''https://'' \<and> 8 < length s),
      zmessage = (\<lambda>k received. ustr ''Invalid input''),
      zcode = (\<lambda>k. case k of
                 InvalidType \<Rightarrow> ustr ''invalid_type''
               | NotInteger \<Rightarrow> ustr ''invalid_type''
               | TooSmall m \<Rightarrow> ustr ''too_small''
               | TooBig m \<Rightarrow> ustr ''too_big''
               | InvalidEnumValue vs \<Rightarrow> ustr ''invalid_enum_value''
               | InvalidUrl \<Rightarrow> ustr ''invalid_string'')\<rparr>"

definition example_host :: "bool \<Rightarrow> jsobject list \<Rightarrow> (nat \<Rightarrow> jsstring + jsvalue) \<Rightarrow> host" where
  "example_host continue items network =
     \<lparr>inputLength = length items,
      continueOnFail = continue,
      getNodeParameter = (\<lambda>name i.
         if i < length items
         then (case map_of (items ! i) name of
                 None \<Rightarrow> Inl (ustr ''Could not get parameter'')
               | Some v \<Rightarrow> Inr v)
         else Inl (ustr ''Could not get parameter'')),
      httpRequestWithAuthentication = (\<lambda>i credentials rq. network i),
      returnJsonArray = (\<lambda>v. case v of
                            JArr xs \<Rightarrow> map (\<lambda>x. \<lparr>json = x, pairedItem = None\<rparr>) xs
                          | _ \<Rightarrow> [\<lparr>json = v, pairedItem = None\<rparr>]),
      constructExecutionMetaData = (\<lambda>ds i. map (\<lambda>d. d\<lparr>pairedItem := Some i\<rparr>) ds),
      typeErrorMessage = ustr ''urlsString.split is not a function''\<rparr>"

text \<open>A network that is down, and one that answers every call with an empty result set.\<close>

definition offline :: "nat \<Rightarrow> jsstring + jsvalue" where
  "offline i = Inl (ustr ''offline'')"

definition online :: "nat \<Rightarrow> jsstring + jsvalue" where
  "online i = Inr (JObj [(ustr ''results'', JObj [])])"

text \<open>Items, as tables of their parameters.\<close>

definition search_item :: "jsobject \<Rightarrow> jsobject" where
  "search_item options =
     [(ustr ''operation'', JStr (ustr ''search'')),
      (ustr ''query'', JStr (ustr ''news'')),
      (ustr ''searchOptions'', JObj options)]"

definition contents_item :: "jsvalue \<Rightarrow> jsvalue \<Rightarrow> jsobject" where
  "contents_item urls options =
     [(ustr ''operation'', JStr (ustr ''contents'')),
      (ustr ''urls'', urls),
      (ustr ''contentsOptions'', options)]"

definition unknown_item :: jsobject where
  "unknown_item = [(ustr ''operation'', JStr (ustr ''delete''))]"

definition malformed_item :: jsobject where
  "malformed_item =
     [(ustr ''operation'', JStr (ustr ''search'')),
      (ustr ''query'', JStr (ustr ''news'')),
      (ustr ''searchOptions'', JStr (ustr ''count=5''))]"

text \<open>A batch of three search items whose second item has two invalid options.\<close>

definition three_items :: "jsobject list" where
  "three_items =
     [search_item [],
      search_item [(ustr ''count'', JNum 0), (ustr ''freshness'', JStr (ustr ''century''))],
      search_item [(ustr ''offset'', JNum 0)]]"

section \<open>Properties: strings\<close>

lemma ustr_eq_iff [simp]: "ustr a = ustr b \<longleftrightarrow> a = b"
  unfolding ustr_def by (rule inj_map_eq_map) (simp add: inj_on_def)

lemma ustr_Nil_iff [simp]: "ustr a = [] \<longleftrightarrow> a = []" "[] = ustr a \<longleftrightarrow> a = []"
  by (auto simp: ustr_def)

lemma js_split_not_Nil [simp]: "js_split sep s \<noteq> []"
  by (induction s) (auto split: list.splits)

lemma js_join_Cons: "ps \<noteq> [] \<Longrightarrow> js_join sep (p # ps) = p @ sep @ js_join sep ps"
  by (cases ps) auto

lemma js_join_split: "js_join [sep] (js_split sep s) = s"
proof (induction s)
  case Nil
  show ?case by simp
next
  case (Cons c cs)
  show ?case
  proof (cases "c = sep")
    case True
    with Cons show ?thesis by (simp add: js_join_Cons)
  next
    case False
    obtain p ps where ps: "js_split sep cs = p # ps"
      by (cases "js_split sep cs") auto
    with Cons have "js_join [sep] (p # ps) = cs" by simp
    then have "js_join [sep] ((c # p) # ps) = c # cs"
      by (cases ps) auto
    with False ps show ?thesis by simp
  qed
qed

lemma js_split_no_sep: "p \<in> set (js_split sep s) \<Longrightarrow> sep \<notin> set p"
proof (induction s arbitrary: p)
  case Nil
  then show ?case by simp
next
  case (Cons c cs)
  then show ?case
    by (cases "js_split sep cs") (auto split: if_splits)
qed

lemma js_split_single: "sep \<notin> set x \<Longrightarrow> js_split sep x = [x]"
  by (induction x) auto

lemma js_split_append_sep:
  "sep \<notin> set x \<Longrightarrow> js_split sep (x @ sep # rest) = x # js_split sep rest"
  by (induction x) auto

lemma js_split_unique:
  "ps \<noteq> [] \<Longrightarrow> \<forall>p \<in> set ps. sep \<notin> set p \<Longrightarrow> js_split sep (js_join [sep] ps) = ps"
proof (induction ps)
  case Nil
  then show ?case by simp
next
  case (Cons x ps)
  show ?case
  proof (cases ps)
    case Nil
    with Cons.prems show ?thesis by (simp add: js_split_single)
  next
    case (Cons y ys)
    with Cons.IH Cons.prems have "js_split sep (js_join [sep] ps) = ps" by simp
    with Cons Cons.prems show ?thesis by (simp add: js_split_append_sep)
  qed
qed

lemma trim_decompose:
  "\<exists>a b. s = a @ trim s @ b \<and> list_all is_space a \<and> list_all is_space b"
proof -
  let ?d = "dropWhile is_space s"
  have 1: "s = takeWhile is_space s @ ?d" by simp
  have 2: "?d = rev (dropWhile is_space (rev ?d)) @ rev (takeWhile is_space (rev ?d))"
    by (metis rev_append rev_rev_ident takeWhile_dropWhile_id)
  have 3: "list_all is_space (takeWhile is_space s)"
    by (simp add: list_all_iff) (meson set_takeWhileD)
  have 4: "list_all is_space (rev (takeWhile is_space (rev ?d)))"
    by (simp add: list_all_iff) (meson set_takeWhileD)
  from 1 2 have "s = takeWhile is_space s @ trim s @ rev (takeWhile is_space (rev ?d))"
    unfolding trim_def by metis
  with 3 4 show ?thesis by blast
qed

lemma trim_ends:
  assumes "trim s \<noteq> []"
  shows "\<not> is_space (hd (trim s))" and "\<not> is_space (last (trim s))"
proof -
  let ?d = "dropWhile is_space s"
  let ?e = "dropWhile is_space (rev ?d)"
  from assms have e: "?e \<noteq> []" by (simp add: trim_def)
  then have "\<not> is_space (hd ?e)" by (rule hd_dropWhile)
  then show "\<not> is_space (last (trim s))"
    using e by (simp add: trim_def last_rev)
  from e have d: "?d \<noteq> []" by (cases ?d) auto
  then have hd: "\<not> is_space (hd ?d)" by (rule hd_dropWhile)
  have "?e \<noteq> [] \<Longrightarrow> last ?e = last (rev ?d)"
    by (metis append_Nil2 last_appendR takeWhile_dropWhile_id)
  with e have "last ?e = hd ?d" using d by (simp add: last_rev)
  then have "hd (rev ?e) = hd ?d" using e by (simp add: hd_rev)
  with hd show "\<not> is_space (hd (trim s))" by (simp add: trim_def)
qed

section \<open>Properties: the schema library\<close>

lemma zparse_object:
  "zparse z (ZObject shape uk) p (JObj fs) =
     (let rs = map (field_result z p fs) shape;
          is = concat (map (\<lambda>r. fst (snd r)) rs);
          extra = (case uk of
                     Strip \<Rightarrow> []
                   | Passthrough \<Rightarrow> filter (\<lambda>(k, x). k \<notin> set (map fst shape)) fs)
      in if is = [] then Inr (JObj (kept rs @ extra)) else Inl is)"
  by (simp add: field_result_def)

lemma zparse_not_empty: "zparse z s p v \<noteq> Inl []"
  by (induction z s p v rule: zparse.induct)
     (auto simp: Let_def split: jsvalue.splits if_splits)

lemma outcome_no_issues: "fst (outcome (zparse z s p v)) = [] \<longleftrightarrow> (\<exists>w. zparse z s p v = Inr w)"
  by (cases "zparse z s p v") (auto simp: zparse_not_empty)

lemma outcome_Inr: "zparse z s p v = Inr w \<Longrightarrow> outcome (zparse z s p v) = ([], Some w)"
  by simp

lemma array_items_unchanged:
  assumes "\<And>i x w. (i, x) \<in> set ixs \<Longrightarrow> zparse z s (p @ [PIdx i]) x = Inr w \<Longrightarrow> w = x"
    and "concat (map fst (map (\<lambda>(i, x). outcome (zparse z s (p @ [PIdx i]) x)) ixs)) = []"
  shows "concat (map (\<lambda>r. case snd r of None \<Rightarrow> [] | Some y \<Rightarrow> [y])
           (map (\<lambda>(i, x). outcome (zparse z s (p @ [PIdx i]) x)) ixs)) = map snd ixs"
  using assms
proof (induction ixs)
  case Nil
  then show ?case by simp
next
  case (Cons a ixs)
  obtain i x where a: "a = (i, x)" by (cases a)
  from Cons.prems(2) a have "fst (outcome (zparse z s (p @ [PIdx i]) x)) = []" by simp
  then obtain w where w: "zparse z s (p @ [PIdx i]) x = Inr w"
    by (auto simp: outcome_no_issues)
  with Cons.prems(1) [of i x w] a have "w = x" by simp
  moreover have tl: "concat (map fst (map (\<lambda>(i, x). outcome (zparse z s (p @ [PIdx i]) x)) ixs)) = []"
    using Cons.prems(2) by simp
  have "concat (map (\<lambda>r. case snd r of None \<Rightarrow> [] | Some y \<Rightarrow> [y])
           (map (\<lambda>(i, x). outcome (zparse z s (p @ [PIdx i]) x)) ixs)) = map snd ixs"
  proof (rule Cons.IH [OF _ tl])
    fix j y w'
    assume "(j, y) \<in> set ixs" and "zparse z s (p @ [PIdx j]) y = Inr w'"
    then show "w' = y" using Cons.prems(1) [of j y w'] by simp
  qed
  ultimately show ?case using a w by simp
qed

lemma zparse_flat_unchanged: "flat s \<Longrightarrow> zparse z s p v = Inr w \<Longrightarrow> w = v"
proof (induction z s p v arbitrary: w rule: zparse.induct)
  case (7 z s p v)
  show ?case
  proof (cases v)
    case (JArr xs)
    let ?rs = "map (\<lambda>(i, x). outcome (zparse z s (p @ [PIdx i]) x)) (enumerate 0 xs)"
    from "7.prems" JArr have e: "concat (map fst ?rs) = []"
      and w: "w = JArr (concat (map (\<lambda>r. case snd r of None \<Rightarrow> [] | Some y \<Rightarrow> [y]) ?rs))"
      by (auto simp: Let_def split: if_splits)
    have "concat (map (\<lambda>r. case snd r of None \<Rightarrow> [] | Some y \<Rightarrow> [y]) ?rs) = map snd (enumerate 0 xs)"
    proof (rule array_items_unchanged [OF _ e])
      fix i x w'
      assume "(i, x) \<in> set (enumerate 0 xs)" and "zparse z s (p @ [PIdx i]) x = Inr w'"
      with "7.IH" [OF JArr _ refl] "7.prems"(1) show "w' = x" by simp
    qed
    with w JArr show ?thesis by simp
  qed (use "7.prems" in \<open>auto\<close>)
qed (auto simp: Let_def split: jsvalue.splits if_splits)

lemma kept_Nil [simp]: "kept [] = []"
  by (simp add: kept_def)

lemma kept_Cons [simp]:
  "kept ((k, is, r) # rs) = (case r of None \<Rightarrow> [] | Some v \<Rightarrow> [(k, v)]) @ kept rs"
  by (simp add: kept_def)

lemma field_result_flat:
  assumes "flat s" and "fst (snd (field_result z p fs (k, s))) = []"
  shows "field_result z p fs (k, s) = (k, [], map_of fs k)"
    and "map_of fs k = Some x \<Longrightarrow> zparse z s (p @ [PKey k]) x = Inr x"
proof -
  show "field_result z p fs (k, s) = (k, [], map_of fs k)"
  proof (cases "map_of fs k")
    case None
    with assms(2) show ?thesis
      by (auto simp: field_result_def mk_issue_def split: if_splits)
  next
    case (Some x)
    with assms(2) obtain w where w: "zparse z s (p @ [PKey k]) x = Inr w"
      by (auto simp: field_result_def outcome_no_issues)
    from zparse_flat_unchanged [OF assms(1) w] have "w = x" .
    with w Some show ?thesis by (simp add: field_result_def)
  qed
  then show "map_of fs k = Some x \<Longrightarrow> zparse z s (p @ [PKey k]) x = Inr x"
    using assms(2)
    by (cases "zparse z s (p @ [PKey k]) x") (auto simp: field_result_def)
qed

lemma kept_flat_lookup:
  assumes "\<forall>(k, s) \<in> set shape. flat s"
    and "concat (map (\<lambda>r. fst (snd r)) (map (field_result z p fs) shape)) = []"
  shows "map_of (kept (map (field_result z p fs) shape)) k =
         (if k \<in> set (map fst shape) then map_of fs k else None)"
  using assms
proof (induction shape)
  case Nil
  then show ?case by simp
next
  case (Cons a shape)
  obtain k' s' where a: "a = (k', s')" by (cases a)
  from Cons.prems a have f: "flat s'" and e: "fst (snd (field_result z p fs (k', s'))) = []"
    by simp_all
  have r: "field_result z p fs (k', s') = (k', [], map_of fs k')"
    by (rule field_result_flat(1) [OF f e])
  have tl: "map_of (kept (map (field_result z p fs) shape)) k =
         (if k \<in> set (map fst shape) then map_of fs k else None)"
    using Cons by simp
  show ?case
    using a r tl by (cases "map_of fs k'") auto
qed

lemma strip_object_valid:
  assumes "\<forall>(k, s) \<in> set shape. flat s"
    and "zparse z (ZObject shape Strip) p v = Inr out"
  shows "\<exists>fs. v = JObj fs
           \<and> (\<forall>k. get_prop out k = (if k \<in> set (map fst shape) then map_of fs k else None))
           \<and> (\<forall>(k, s) \<in> set shape. \<forall>x. map_of fs k = Some x \<longrightarrow> zparse z s (p @ [PKey k]) x = Inr x)"
proof (cases v)
  case (JObj fs)
  let ?rs = "map (field_result z p fs) shape"
  from assms(2) JObj have e: "concat (map (\<lambda>r. fst (snd r)) ?rs) = []"
    and out: "out = JObj (kept ?rs)"
    by (auto simp: zparse_object Let_def simp del: zparse.simps split: if_splits)
  have 1: "\<forall>k. get_prop out k = (if k \<in> set (map fst shape) then map_of fs k else None)"
    using kept_flat_lookup [OF assms(1) e] out by simp
  have 2: "\<forall>(k, s) \<in> set shape. \<forall>x. map_of fs k = Some x \<longrightarrow> zparse z s (p @ [PKey k]) x = Inr x"
  proof (intro ballI)
    fix a assume m: "a \<in> set shape"
    obtain k s where a: "a = (k, s)" by (cases a)
    from m a assms(1) have f: "flat s" by auto
    from e m a have "fst (snd (field_result z p fs (k, s))) = []" by auto
    from field_result_flat(2) [OF f this] a
    show "case a of (k, s) \<Rightarrow> \<forall>x. map_of fs k = Some x \<longrightarrow> zparse z s (p @ [PKey k]) x = Inr x"
      by simp
  qed
  from JObj 1 2 show ?thesis by blast
qed (use assms(2) in \<open>auto\<close>)

section \<open>Properties: the search request\<close>

lemma map_of_set_prop [simp]: "map_of (set_prop t k v) = (map_of t)(k \<mapsto> v)"
  by (induction t) (auto simp: fun_eq_iff)

lemma keys_set_prop: "fst ` set (set_prop t k v) = insert k (fst ` set t)"
  by (induction t) force+

lemma distinct_set_prop [simp]: "distinct (map fst t) \<Longrightarrow> distinct (map fst (set_prop t k v))"
  by (induction t) (auto simp: keys_set_prop)

lemma map_of_copy_if_truthy:
  "map_of (copy_if_truthy options k t) =
     (if truthy (get_prop options k) then (map_of t)(k := get_prop options k) else map_of t)"
  by (auto simp: copy_if_truthy_def split: option.splits)

lemma map_of_copy_if_defined:
  "map_of (copy_if_defined options k t) =
     (if get_prop options k \<noteq> None then (map_of t)(k := get_prop options k) else map_of t)"
  by (auto simp: copy_if_defined_def split: option.splits)

lemma distinct_copy_if_truthy [simp]:
  "distinct (map fst t) \<Longrightarrow> distinct (map fst (copy_if_truthy options k t))"
  by (auto simp: copy_if_truthy_def split: option.splits)

lemma distinct_copy_if_defined [simp]:
  "distinct (map fst t) \<Longrightarrow> distinct (map fst (copy_if_defined options k t))"
  by (auto simp: copy_if_defined_def split: option.splits)

lemma valid_number_truthy:
  "zparse z (ZOptional (ZNumber [IsInt, MinValue 1, MaxValue m])) p x = Inr w \<Longrightarrow> truthy (Some x)"
  by (cases x) (auto simp: Let_def split: if_splits)

lemma valid_enum_truthy:
  "zparse z (ZOptional (ZEnum vs)) p x = Inr w \<Longrightarrow> [] \<notin> set vs \<Longrightarrow> truthy (Some x)"
  by (cases x) (auto split: if_splits)

lemma valid_string:
  "zparse z (ZOptional ZString) p x = Inr w \<Longrightarrow> \<exists>s. x = JStr s"
  by (cases x) auto

lemma search_options_valid:
  assumes "parse z SearchOptionsSchema raw = Inr options"
  shows "\<exists>fs. raw = JObj fs
     \<and> (\<forall>k \<in> {ustr ''count'', ustr ''country'', ustr ''freshness'', ustr ''language'',
           ustr ''livecrawl'', ustr ''livecrawl_formats'', ustr ''offset'', ustr ''safesearch''}.
           get_prop options k = map_of fs k)
     \<and> (\<forall>k \<in> {ustr ''count'', ustr ''freshness'', ustr ''livecrawl'', ustr ''livecrawl_formats'',
           ustr ''safesearch''}. truthy (map_of fs k) \<longleftrightarrow> map_of fs k \<noteq> None)
     \<and> (\<forall>k \<in> {ustr ''country'', ustr ''language''}.
           truthy (map_of fs k) \<longleftrightarrow> map_of fs k \<noteq> None \<and> map_of fs k \<noteq> Some (JStr []))"
proof -
  let ?shape = "[(ustr ''count'', ZOptional (ZNumber [IsInt, MinValue 1, MaxValue 100])),
      (ustr ''country'', ZOptional ZString),
      (ustr ''freshness'', ZOptional (ZEnum [ustr ''day'', ustr ''week'', ustr ''month'', ustr ''year''])),
      (ustr ''language'', ZOptional ZString),
      (ustr ''livecrawl'', ZOptional (ZEnum [ustr ''web'', ustr ''news'', ustr ''all''])),
      (ustr ''livecrawl_formats'', ZOptional (ZEnum [ustr ''html'', ustr ''markdown''])),
      (ustr ''offset'', ZOptional (ZNumber [IsInt, MinValue 0, MaxValue 9])),
      (ustr ''safesearch'', ZOptional (ZEnum [ustr ''off'', ustr ''moderate'', ustr ''strict'']))]"
  have fl: "\<forall>(k, s) \<in> set ?shape. flat s" by simp
  from assms have "zparse z (ZObject ?shape Strip) [] raw = Inr options"
    by (simp only: parse_def SearchOptionsSchema_def)
  from strip_object_valid [OF fl this] obtain fs where raw: "raw = JObj fs"
    and g: "\<And>k. get_prop options k = (if k \<in> set (map fst ?shape) then map_of fs k else None)"
    and v: "\<forall>(k, s) \<in> set ?shape. \<forall>x. map_of fs k = Some x \<longrightarrow> zparse z s ([] @ [PKey k]) x = Inr x"
    by blast
  have 1: "\<forall>k \<in> {ustr ''count'', ustr ''country'', ustr ''freshness'', ustr ''language'',
           ustr ''livecrawl'', ustr ''livecrawl_formats'', ustr ''offset'', ustr ''safesearch''}.
           get_prop options k = map_of fs k"
    by (simp add: g)
  have count: "truthy (map_of fs (ustr ''count'')) \<longleftrightarrow> map_of fs (ustr ''count'') \<noteq> None"
    using v valid_number_truthy [of z 100 "[PKey (ustr ''count'')]"]
    by (cases "map_of fs (ustr ''count'')") (simp_all del: zparse.simps)
  have freshness: "truthy (map_of fs (ustr ''freshness'')) \<longleftrightarrow> map_of fs (ustr ''freshness'') \<noteq> None"
    using v valid_enum_truthy [of z "[ustr ''day'', ustr ''week'', ustr ''month'', ustr ''year'']" "[PKey (ustr ''freshness'')]"]
    by (cases "map_of fs (ustr ''freshness'')") (simp_all del: zparse.simps)
  have livecrawl: "truthy (map_of fs (ustr ''livecrawl'')) \<longleftrightarrow> map_of fs (ustr ''livecrawl'') \<noteq> None"
    using v valid_enum_truthy [of z "[ustr ''web'', ustr ''news'', ustr ''all'']" "[PKey (ustr ''livecrawl'')]"]
    by (cases "map_of fs (ustr ''livecrawl'')") (simp_all del: zparse.simps)
  have livecrawl_formats: "truthy (map_of fs (ustr ''livecrawl_formats'')) \<longleftrightarrow> map_of fs (ustr ''livecrawl_formats'') \<noteq> None"
    using v valid_enum_truthy [of z "[ustr ''html'', ustr ''markdown'']" "[PKey (ustr ''livecrawl_formats'')]"]
    by (cases "map_of fs (ustr ''livecrawl_formats'')") (simp_all del: zparse.simps)
  have safesearch: "truthy (map_of fs (ustr ''safesearch'')) \<longleftrightarrow> map_of fs (ustr ''safesearch'') \<noteq> None"
    using v valid_enum_truthy [of z "[ustr ''off'', ustr ''moderate'', ustr ''strict'']" "[PKey (ustr ''safesearch'')]"]
    by (cases "map_of fs (ustr ''safesearch'')") (simp_all del: zparse.simps)
  have country: "truthy (map_of fs (ustr ''country'')) \<longleftrightarrow>
      map_of fs (ustr ''country'') \<noteq> None \<and> map_of fs (ustr ''country'') \<noteq> Some (JStr [])"
  proof (cases "map_of fs (ustr ''country'')")
    case None
    then show ?thesis by simp
  next
    case (Some x)
    with v have "zparse z (ZOptional ZString) [PKey (ustr ''country'')] x = Inr x"
      by (simp del: zparse.simps)
    from valid_string [OF this] obtain s where "x = JStr s" ..
    with Some show ?thesis by simp
  qed
  have language: "truthy (map_of fs (ustr ''language'')) \<longleftrightarrow>
      map_of fs (ustr ''language'') \<noteq> None \<and> map_of fs (ustr ''language'') \<noteq> Some (JStr [])"
  proof (cases "map_of fs (ustr ''language'')")
    case None
    then show ?thesis by simp
  next
    case (Some x)
    with v have "zparse z (ZOptional ZString) [PKey (ustr ''language'')] x = Inr x"
      by (simp del: zparse.simps)
    from valid_string [OF this] obtain s where "x = JStr s" ..
    with Some show ?thesis by simp
  qed
  from raw 1 count freshness livecrawl livecrawl_formats safesearch country language
  show ?thesis by simp
qed

lemma map_of_copy_if_truthy':
  "map_of (copy_if_truthy options k t) k' =
     (if k' = k \<and> truthy (get_prop options k) then get_prop options k else map_of t k')"
  by (auto simp: copy_if_truthy_def split: option.splits)

lemma map_of_copy_if_defined':
  "map_of (copy_if_defined options k t) k' =
     (if k' = k \<and> get_prop options k \<noteq> None then get_prop options k else map_of t k')"
  by (auto simp: copy_if_defined_def split: option.splits)

lemma search_request_fields:
  "http_method (search_request q) = ustr ''GET''"
  "url (search_request q) = ustr ''https://ydc-index.io/v1/search''"
  "headers (search_request q) = [(ustr ''User-Agent'', USER_AGENT)]"
  "qs (search_request q) = Some q"
  "body (search_request q) = None"
  "json_flag (search_request q)"
  by (simp_all add: search_request_def)

lemma executeSearch_request:
  assumes "getNodeParameter h (ustr ''query'') i = Inr query"
    and "getNodeParameter h (ustr ''searchOptions'') i = Inr raw"
    and "parse z SearchOptionsSchema raw = Inr options"
  shows "fst (executeSearch z h i) = [search_request (search_qs query options)]"
  using assms by (simp add: executeSearch_def Let_def split: sum.splits)

lemma search_qs_lookup:
  assumes "parse z SearchOptionsSchema raw = Inr options"
  shows "\<exists>fs. raw = JObj fs
     \<and> map_of (search_qs query options) = (\<lambda>k.
          if k = ustr ''query'' then Some query
          else if k \<in> {ustr ''count'', ustr ''freshness'', ustr ''livecrawl'',
                        ustr ''livecrawl_formats'', ustr ''offset'', ustr ''safesearch''}
          then map_of fs k
          else if k \<in> {ustr ''country'', ustr ''language''}
          then (if map_of fs k = Some (JStr []) then None else map_of fs k)
          else None)"
proof -
  from search_options_valid [OF assms] obtain fs where raw: "raw = JObj fs"
    and g: "\<forall>k \<in> {ustr ''count'', ustr ''country'', ustr ''freshness'', ustr ''language'',
           ustr ''livecrawl'', ustr ''livecrawl_formats'', ustr ''offset'', ustr ''safesearch''}.
           get_prop options k = map_of fs k"
    and t: "\<forall>k \<in> {ustr ''count'', ustr ''freshness'', ustr ''livecrawl'', ustr ''livecrawl_formats'',
           ustr ''safesearch''}. truthy (map_of fs k) \<longleftrightarrow> map_of fs k \<noteq> None"
    and e: "\<forall>k \<in> {ustr ''country'', ustr ''language''}.
           truthy (map_of fs k) \<longleftrightarrow> map_of fs k \<noteq> None \<and> map_of fs k \<noteq> Some (JStr [])"
    by blast
  let ?q = "search_qs query options"
  have m: "map_of ?q = (\<lambda>k.
          if k = ustr ''query'' then Some query
          else if k \<in> {ustr ''count'', ustr ''freshness'', ustr ''livecrawl'',
                        ustr ''livecrawl_formats'', ustr ''offset'', ustr ''safesearch''}
          then map_of fs k
          else if k \<in> {ustr ''country'', ustr ''language''}
          then (if map_of fs k = Some (JStr []) then None else map_of fs k)
          else None)"
  proof (rule ext)
    fix k
    have n: "\<And>m::jsvalue option. (if m \<noteq> None then m else None) = m"
      by simp
    have c: "\<And>m::jsvalue option. (if m \<noteq> None \<and> m \<noteq> Some (JStr []) then m else None) =
        (if m = Some (JStr []) then None else m)"
      by auto
    show "map_of ?q k =
         (if k = ustr ''query'' then Some query
          else if k \<in> {ustr ''count'', ustr ''freshness'', ustr ''livecrawl'',
                        ustr ''livecrawl_formats'', ustr ''offset'', ustr ''safesearch''}
          then map_of fs k
          else if k \<in> {ustr ''country'', ustr ''language''}
          then (if map_of fs k = Some (JStr []) then None else map_of fs k)
          else None)"
      using g t e
      by (simp add: search_qs_def map_of_copy_if_truthy' map_of_copy_if_defined' n c)
  qed
  from raw m show ?thesis by blast
qed

lemma example_host_simps [simp]:
  "inputLength (example_host c items n) = length items"
  "continueOnFail (example_host c items n) = c"
  "getNodeParameter (example_host c items n) name i =
     (if i < length items
      then (case map_of (items ! i) name of
              None \<Rightarrow> Inl (ustr ''Could not get parameter'')
            | Some v \<Rightarrow> Inr v)
      else Inl (ustr ''Could not get parameter''))"
  "httpRequestWithAuthentication (example_host c items n) i cr rq = n i"
  "typeErrorMessage (example_host c items n) = ustr ''urlsString.split is not a function''"
  by (simp_all add: example_host_def)

lemma parse_offset_count_example: "parse example_zod SearchOptionsSchema (JObj [(ustr ''offset'', JNum 0), (ustr ''count'', JNum 5)])
    = Inr (JObj [(ustr ''count'', JNum 5), (ustr ''offset'', JNum 0)])"
  by (simp add: parse_def SearchOptionsSchema_def kept_def)

lemma parse_empty_country_example: "parse example_zod SearchOptionsSchema (JObj [(ustr ''country'', JStr [])])
    = Inr (JObj [(ustr ''country'', JStr [])])"
  by (simp add: parse_def SearchOptionsSchema_def kept_def)

lemma request_offset_count_example: "fst (executeSearch example_zod
       (example_host False [search_item [(ustr ''offset'', JNum 0), (ustr ''count'', JNum 5)]] offline) 0) =
     [search_request [(ustr ''query'', JStr (ustr ''news'')), (ustr ''count'', JNum 5), (ustr ''offset'', JNum 0)]]"
  by (simp add: executeSearch_def search_item_def parse_offset_count_example offline_def search_qs_def copy_if_truthy_def copy_if_defined_def)

lemma country_language_only_valid:
  assumes "\<forall>(k, v) \<in> set fs. (k = ustr ''country'' \<or> k = ustr ''language'') \<and> (\<exists>s. v = JStr s \<and> s \<noteq> [])"
  shows "\<exists>options. parse z SearchOptionsSchema (JObj fs) = Inr options"
    and "k \<noteq> ustr ''country'' \<Longrightarrow> k \<noteq> ustr ''language'' \<Longrightarrow> map_of fs k = None"
    and "map_of fs k \<noteq> Some (JStr [])"
proof -
  show other: "map_of fs k = None" if "k \<noteq> ustr ''country''" "k \<noteq> ustr ''language''" for k
  proof (cases "map_of fs k")
    case (Some v)
    then have "(k, v) \<in> set fs" by (rule map_of_SomeD)
    with assms that show ?thesis by auto
  qed simp
  have str: "map_of fs k = None \<or> (\<exists>s. map_of fs k = Some (JStr s) \<and> s \<noteq> [])" for k
  proof (cases "map_of fs k")
    case (Some v)
    then have "(k, v) \<in> set fs" by (rule map_of_SomeD)
    with assms Some show ?thesis by auto
  qed simp
  from str [of k] show "map_of fs k \<noteq> Some (JStr [])" by auto
  have c: "fst (snd (field_result z [] fs (ustr ''country'', ZOptional ZString))) = []"
    using str [of "ustr ''country''"] by (auto simp: field_result_def)
  have l: "fst (snd (field_result z [] fs (ustr ''language'', ZOptional ZString))) = []"
    using str [of "ustr ''language''"] by (auto simp: field_result_def)
  have o: "fst (snd (field_result z [] fs (k, ZOptional s))) = []"
    if "k \<noteq> ustr ''country''" "k \<noteq> ustr ''language''" for k s
    using other [OF that] by (simp add: field_result_def)
  show "\<exists>options. parse z SearchOptionsSchema (JObj fs) = Inr options"
    by (simp add: parse_def SearchOptionsSchema_def zparse_object c l o del: zparse.simps)
qed

section \<open>Properties: the contents request\<close>

lemma map_of_copy_if_nonempty':
  "map_of (copy_if_nonempty options k t) k' =
     (if k' = k \<and> truthy (get_prop options k) \<and>
         (case get_prop options k of None \<Rightarrow> False
          | Some x \<Rightarrow> (case js_length x of None \<Rightarrow> False | Some n \<Rightarrow> 0 < n))
      then get_prop options k else map_of t k')"
  by (auto simp: copy_if_nonempty_def split: option.splits)

lemma distinct_copy_if_nonempty [simp]:
  "distinct (map fst t) \<Longrightarrow> distinct (map fst (copy_if_nonempty options k t))"
  by (auto simp: copy_if_nonempty_def split: option.splits)

lemma valid_timeout:
  "zparse z (ZOptional (ZNumber [IsInt, MinValue 1, MaxValue 60])) p x = Inr w \<Longrightarrow>
     \<exists>n. x = JNum (of_int n) \<and> 1 \<le> n \<and> n \<le> 60"
proof (cases x)
  case (JNum q)
  assume "zparse z (ZOptional (ZNumber [IsInt, MinValue 1, MaxValue 60])) p x = Inr w"
  with JNum have i: "of_int (floor q) = q" and lo: "\<not> q < 1" and hi: "\<not> 60 < q"
    by (auto simp: Let_def split: if_splits)
  from lo hi i have "1 \<le> floor q" "floor q \<le> 60"
    by (simp_all add: le_floor_iff floor_le_iff)
  with i JNum show ?thesis by metis
qed auto

lemma valid_formats:
  "zparse z (ZOptional (ZArray s)) p x = Inr w \<Longrightarrow> \<exists>xs. x = JArr xs"
  by (cases x) auto

lemma contents_options_valid:
  assumes "parse z ContentsOptionsSchema raw = Inr options"
  shows "\<exists>fs. raw = JObj fs
     \<and> get_prop options (ustr ''formats'') = map_of fs (ustr ''formats'')
     \<and> get_prop options (ustr ''crawl_timeout'') = map_of fs (ustr ''crawl_timeout'')
     \<and> (map_of fs (ustr ''formats'') = None \<or> (\<exists>xs. map_of fs (ustr ''formats'') = Some (JArr xs)))
     \<and> (map_of fs (ustr ''crawl_timeout'') = None \<or>
          (\<exists>n. map_of fs (ustr ''crawl_timeout'') = Some (JNum (of_int n)) \<and> 1 \<le> n \<and> n \<le> 60))"
proof -
  let ?shape = "[(ustr ''formats'', ZOptional (ZArray (ZEnum [ustr ''markdown'', ustr ''html'', ustr ''metadata'']))),
      (ustr ''crawl_timeout'', ZOptional (ZNumber [IsInt, MinValue 1, MaxValue 60]))]"
  have fl: "\<forall>(k, s) \<in> set ?shape. flat s" by simp
  from assms have "zparse z (ZObject ?shape Strip) [] raw = Inr options"
    by (simp only: parse_def ContentsOptionsSchema_def)
  from strip_object_valid [OF fl this] obtain fs where raw: "raw = JObj fs"
    and g: "\<And>k. get_prop options k = (if k \<in> set (map fst ?shape) then map_of fs k else None)"
    and v: "\<forall>(k, s) \<in> set ?shape. \<forall>x. map_of fs k = Some x \<longrightarrow> zparse z s ([] @ [PKey k]) x = Inr x"
    by blast
  have f: "map_of fs (ustr ''formats'') = None \<or> (\<exists>xs. map_of fs (ustr ''formats'') = Some (JArr xs))"
  proof (cases "map_of fs (ustr ''formats'')")
    case (Some x)
    with v have "zparse z (ZOptional (ZArray (ZEnum [ustr ''markdown'', ustr ''html'', ustr ''metadata''])))
        [PKey (ustr ''formats'')] x = Inr x"
      by (simp del: zparse.simps)
    from valid_formats [OF this] Some show ?thesis by simp
  qed simp
  have t: "map_of fs (ustr ''crawl_timeout'') = None \<or>
          (\<exists>n. map_of fs (ustr ''crawl_timeout'') = Some (JNum (of_int n)) \<and> 1 \<le> n \<and> n \<le> 60)"
  proof (cases "map_of fs (ustr ''crawl_timeout'')")
    case (Some x)
    with v have "zparse z (ZOptional (ZNumber [IsInt, MinValue 1, MaxValue 60]))
        [PKey (ustr ''crawl_timeout'')] x = Inr x"
      by (simp del: zparse.simps)
    from valid_timeout [OF this] Some show ?thesis by simp
  qed simp
  from raw f t show ?thesis by (simp add: g)
qed

lemma contents_request_fields:
  "http_method (contents_request b) = ustr ''POST''"
  "url (contents_request b) = ustr ''https://ydc-index.io/v1/contents''"
  "headers (contents_request b) = [(ustr ''User-Agent'', USER_AGENT)]"
  "qs (contents_request b) = None"
  "body (contents_request b) = Some b"
  "json_flag (contents_request b)"
  by (simp_all add: contents_request_def)

lemma executeContents_request:
  assumes "getNodeParameter h (ustr ''urls'') i = Inr (JStr s)"
    and "getNodeParameter h (ustr ''contentsOptions'') i = Inr raw"
    and "parse z ContentsOptionsSchema raw = Inr options"
    and "parse_urls s \<noteq> []"
  shows "fst (executeContents z h i) = [contents_request (contents_body (parse_urls s) options)]"
  using assms by (simp add: executeContents_def Let_def split: sum.splits)

lemma executeContents_no_urls:
  assumes "getNodeParameter h (ustr ''urls'') i = Inr (JStr s)"
    and "getNodeParameter h (ustr ''contentsOptions'') i = Inr raw"
    and "parse z ContentsOptionsSchema raw = Inr options"
    and "parse_urls s = []"
  shows "executeContents z h i =
     ([], Inl (NodeOperationError (ustr ''At least one URL is required'') i))"
  using assms by (simp add: executeContents_def Let_def)

lemma contents_body_lookup:
  assumes "parse z ContentsOptionsSchema raw = Inr options"
  shows "\<exists>fs. raw = JObj fs
     \<and> distinct (map fst (contents_body urls options))
     \<and> map_of (contents_body urls options) = (\<lambda>k.
          if k = ustr ''urls'' then Some (JArr (map JStr urls))
          else if k = ustr ''formats''
          then (if \<exists>x xs. map_of fs k = Some (JArr (x # xs)) then map_of fs k else None)
          else if k = ustr ''crawl_timeout'' then map_of fs k
          else None)"
proof -
  from contents_options_valid [OF assms] obtain fs where raw: "raw = JObj fs"
    and gf: "get_prop options (ustr ''formats'') = map_of fs (ustr ''formats'')"
    and gt: "get_prop options (ustr ''crawl_timeout'') = map_of fs (ustr ''crawl_timeout'')"
    and f: "map_of fs (ustr ''formats'') = None \<or> (\<exists>xs. map_of fs (ustr ''formats'') = Some (JArr xs))"
    and t: "map_of fs (ustr ''crawl_timeout'') = None \<or>
          (\<exists>n. map_of fs (ustr ''crawl_timeout'') = Some (JNum (of_int n)) \<and> 1 \<le> n \<and> n \<le> 60)"
    by blast
  have d: "distinct (map fst (contents_body urls options))"
    by (simp add: contents_body_def)
  have "map_of (contents_body urls options) k =
         (if k = ustr ''urls'' then Some (JArr (map JStr urls))
          else if k = ustr ''formats''
          then (if \<exists>x xs. map_of fs k = Some (JArr (x # xs)) then map_of fs k else None)
          else if k = ustr ''crawl_timeout'' then map_of fs k
          else None)" for k
  proof -
    from f have ff: "(truthy (map_of fs (ustr ''formats'')) \<and>
         (case map_of fs (ustr ''formats'') of None \<Rightarrow> False
          | Some x \<Rightarrow> (case js_length x of None \<Rightarrow> False | Some n \<Rightarrow> 0 < n)))
       \<longleftrightarrow> (\<exists>x xs. map_of fs (ustr ''formats'') = Some (JArr (x # xs)))"
      by (auto simp: neq_Nil_conv)
    from t have tt: "truthy (map_of fs (ustr ''crawl_timeout'')) \<longleftrightarrow> map_of fs (ustr ''crawl_timeout'') \<noteq> None"
      by auto
    show ?thesis
      using ff tt
      by (simp add: contents_body_def map_of_copy_if_truthy' map_of_copy_if_nonempty' gf gt)
  qed
  then have "map_of (contents_body urls options) = (\<lambda>k.
          if k = ustr ''urls'' then Some (JArr (map JStr urls))
          else if k = ustr ''formats''
          then (if \<exists>x xs. map_of fs k = Some (JArr (x # xs)) then map_of fs k else None)
          else if k = ustr ''crawl_timeout'' then map_of fs k
          else None)"
    by (rule ext)
  with raw d show ?thesis by blast
qed

lemma parse_contents_options_example:
  "parse example_zod ContentsOptionsSchema
     (JObj [(ustr ''formats'', JArr [JStr (ustr ''markdown'')]), (ustr ''crawl_timeout'', JNum 30)])
   = Inr (JObj [(ustr ''formats'', JArr [JStr (ustr ''markdown'')]), (ustr ''crawl_timeout'', JNum 30)])"
  by (simp add: parse_def ContentsOptionsSchema_def kept_def enumerate_eq_zip)

lemma parse_urls_two: "parse_urls (ustr ''https://a.com, https://b.com'') = [ustr ''https://a.com'', ustr ''https://b.com'']"
  by (simp add: parse_urls_def ustr_def trim_def is_space_def)

section \<open>Properties: the batch runner\<close>

lemma try_item_contents:
  "getNodeParameter h (ustr ''operation'') i = Inr (JStr (ustr ''contents'')) \<Longrightarrow>
   try_item z h i =
     (case executeContents z h i of
        (calls, Inl e) \<Rightarrow> (calls, Inl e)
      | (calls, Inr response) \<Rightarrow>
          (calls, Inr (constructExecutionMetaData h (returnJsonArray h response) i)))"
  by (simp add: try_item_def)

lemma try_item_search:
  "getNodeParameter h (ustr ''operation'') i = Inr (JStr (ustr ''search'')) \<Longrightarrow>
   try_item z h i =
     (case executeSearch z h i of
        (calls, Inl e) \<Rightarrow> (calls, Inl e)
      | (calls, Inr response) \<Rightarrow>
          (calls, Inr (constructExecutionMetaData h (returnJsonArray h response) i)))"
  by (simp add: try_item_def)

lemma parse_urls_empty: "parse_urls (ustr '''') = []"
  by (simp add: parse_urls_def ustr_def trim_def)

lemma parse_urls_comma: "parse_urls (ustr '','') = []"
  by (simp add: parse_urls_def ustr_def trim_def)

lemma parse_empty_contents_options: "parse example_zod ContentsOptionsSchema (JObj []) = Inr (JObj [])"
  by (simp add: parse_def ContentsOptionsSchema_def kept_def)

lemma catch_item_continue:
  assumes "continueOnFail h"
  shows "\<exists>r. catch_item h i e = Inr r \<and> pairedItem r = Some i"
  using assms by (cases e) simp_all

lemma catch_item_abort:
  assumes "\<not> continueOnFail h"
  shows "\<exists>r. catch_item h i e = Inl (NodeApiError r i)"
  using assms by (cases e) simp_all

lemma execute_from_continue:
  assumes "continueOnFail h"
  shows "i \<le> inputLength h \<Longrightarrow>
     execute_from z h i calls returnData =
       (calls @ concat (map (\<lambda>j. fst (try_item z h j)) [i..<inputLength h]),
        Inr (returnData @ concat (map (item_output z h) [i..<inputLength h])))"
proof (induction "inputLength h - i" arbitrary: i calls returnData)
  case 0
  then show ?case by (simp add: execute_from.simps)
next
  case (Suc n)
  then have lt: "i < inputLength h" and n: "n = inputLength h - Suc i" and le: "Suc i \<le> inputLength h"
    by simp_all
  have up: "[i..<inputLength h] = i # [Suc i..<inputLength h]"
    using lt by (simp add: upt_conv_Cons)
  obtain cs r where t: "try_item z h i = (cs, r)" by (cases "try_item z h i")
  show ?case
  proof (cases r)
    case (Inr out)
    with t lt Suc.hyps(1) [OF n le] show ?thesis
      by (subst execute_from.simps) (simp add: up item_output_def)
  next
    case (Inl e)
    from catch_item_continue [OF assms, of i e] obtain rc where c: "catch_item h i e = Inr rc"
      by blast
    with Inl t lt Suc.hyps(1) [OF n le] show ?thesis
      by (subst execute_from.simps) (simp add: up item_output_def)
  qed
qed

lemma execute_from_abort:
  assumes "\<not> continueOnFail h" and "i < inputLength h"
    and "snd (try_item z h i) = Inl e"
  shows "i0 \<le> i \<Longrightarrow> (\<forall>j. i0 \<le> j \<and> j < i \<longrightarrow> (\<exists>out. snd (try_item z h j) = Inr out)) \<Longrightarrow>
     \<exists>r. catch_item h i e = Inl (NodeApiError r i) \<and>
     execute_from z h i0 calls returnData =
       (calls @ concat (map (\<lambda>j. fst (try_item z h j)) [i0..<Suc i]), Inl (NodeApiError r i))"
proof (induction "i - i0" arbitrary: i0 calls returnData)
  case 0
  then have eq: "i0 = i" by simp
  from catch_item_abort [OF assms(1), of i e] obtain r where c: "catch_item h i e = Inl (NodeApiError r i)"
    by blast
  obtain cs where t: "try_item z h i = (cs, Inl e)"
    using assms(3) by (cases "try_item z h i") simp
  have "execute_from z h i calls returnData = (calls @ cs, Inl (NodeApiError r i))"
    using assms(2) t c by (subst execute_from.simps) simp
  with c t eq show ?case by simp
next
  case (Suc n)
  then have lt: "i0 < i" and n: "n = i - Suc i0" and le: "Suc i0 \<le> i" by simp_all
  from Suc.prems(2) lt obtain out where o: "snd (try_item z h i0) = Inr out" by auto
  then obtain cs where t: "try_item z h i0 = (cs, Inr out)"
    by (cases "try_item z h i0") simp
  have rest: "\<forall>j. Suc i0 \<le> j \<and> j < i \<longrightarrow> (\<exists>out. snd (try_item z h j) = Inr out)"
    using Suc.prems(2) by simp
  from Suc.hyps(1) [OF n le rest, of "calls @ cs" "returnData @ out"]
  obtain r where c: "catch_item h i e = Inl (NodeApiError r i)"
    and e: "execute_from z h (Suc i0) (calls @ cs) (returnData @ out) =
       ((calls @ cs) @ concat (map (\<lambda>j. fst (try_item z h j)) [Suc i0..<Suc i]), Inl (NodeApiError r i))"
    by blast
  have up: "[i0..<Suc i] = i0 # [Suc i0..<Suc i]"
    using lt by (simp add: upt_conv_Cons)
  have "execute_from z h i0 calls returnData =
        execute_from z h (Suc i0) (calls @ cs) (returnData @ out)"
    using lt assms(2) t by (subst execute_from.simps) simp
  with e c t up show ?case by simp
qed

lemma parse_minimal_search_response:
  "parse example_zod SearchResponseSchema (JObj [(ustr ''results'', JObj [])]) = Inr (JObj [(ustr ''results'', JObj [])])"
  by (simp add: parse_def SearchResponseSchema_def kept_def)

lemma parse_empty_search_options:
  "parse example_zod SearchOptionsSchema (JObj []) = Inr (JObj [])"
  by (simp add: parse_def SearchOptionsSchema_def kept_def)

lemma parse_offset_only:
  "parse example_zod SearchOptionsSchema (JObj [(ustr ''offset'', JNum 0)]) = Inr (JObj [(ustr ''offset'', JNum 0)])"
  by (simp add: parse_def SearchOptionsSchema_def kept_def)

lemma parse_two_violations:
  "parse z SearchOptionsSchema (JObj [(ustr ''count'', JNum 0), (ustr ''freshness'', JStr (ustr ''century''))]) =
     Inl [mk_issue z [PKey (ustr ''count'')] (TooSmall 1) (Some (JNum 0)),
          mk_issue z [PKey (ustr ''freshness'')]
            (InvalidEnumValue [ustr ''day'', ustr ''week'', ustr ''month'', ustr ''year''])
            (Some (JStr (ustr ''century'')))]"
  by (simp add: parse_def SearchOptionsSchema_def)

lemma try_three_items:
  "try_item example_zod (example_host c three_items online) 0 =
     ([search_request [(ustr ''query'', JStr (ustr ''news''))]],
      Inr [\<lparr>json = JObj [(ustr ''results'', JObj [])], pairedItem = Some 0\<rparr>])"
  "try_item example_zod (example_host c three_items online) 1 =
     ([], Inl (ZodError
        [mk_issue example_zod [PKey (ustr ''count'')] (TooSmall 1) (Some (JNum 0)),
          mk_issue example_zod [PKey (ustr ''freshness'')]
            (InvalidEnumValue [ustr ''day'', ustr ''week'', ustr ''month'', ustr ''year''])
            (Some (JStr (ustr ''century'')))]))"
  "try_item example_zod (example_host c three_items online) 2 =
     ([search_request [(ustr ''query'', JStr (ustr ''news'')), (ustr ''offset'', JNum 0)]],
      Inr [\<lparr>json = JObj [(ustr ''results'', JObj [])], pairedItem = Some 2\<rparr>])"
  by (simp_all add: try_item_def three_items_def search_item_def executeSearch_def
      parse_empty_search_options parse_offset_only parse_two_violations parse_minimal_search_response
      online_def search_qs_def copy_if_truthy_def copy_if_defined_def example_host_def)

lemma length_three_items: "length three_items = 3"
  by (simp add: three_items_def)

section \<open>Properties: violations and their paths\<close>

lemma object_issues:
  "parse z (ZObject shape uk) (JObj fs) = Inl is \<Longrightarrow>
     is = concat (map (\<lambda>f. fst (snd (field_result z [] fs f))) shape)"
  by (simp add: parse_def zparse_object Let_def comp_def del: zparse.simps split: if_splits)

lemma object_rejects:
  assumes "f \<in> set shape" and "fst (snd (field_result z [] fs f)) \<noteq> []"
  shows "parse z (ZObject shape uk) (JObj fs) =
     Inl (concat (map (\<lambda>f. fst (snd (field_result z [] fs f))) shape))"
proof -
  from assms have "concat (map (\<lambda>f. fst (snd (field_result z [] fs f))) shape) \<noteq> []"
    by auto
  then show ?thesis
    by (simp add: parse_def zparse_object Let_def comp_def del: zparse.simps)
qed

lemma field_result_present:
  "map_of fs k = Some x \<Longrightarrow> zparse z s [PKey k] x = Inl is \<Longrightarrow>
     fst (snd (field_result z [] fs (k, s))) = is"
  by (simp add: field_result_def)

lemma passthrough_extra:
  assumes "zparse z (ZObject shape Passthrough) p (JObj fs) = Inr out"
    and "k \<notin> set (map fst shape)"
  shows "get_prop out k = map_of fs k"
proof -
  let ?rs = "map (field_result z p fs) shape"
  have keys: "fst ` set (kept rs) \<subseteq> fst ` set rs" for rs :: "(jsstring \<times> issue list \<times> jsvalue option) list"
  proof (induction rs)
    case Nil
    show ?case by simp
  next
    case (Cons a rs)
    obtain k' iss r where a: "a = (k', iss, r)" by (cases a)
    from Cons show ?case
      unfolding a by (cases r) force+
  qed
  have "fst ` set ?rs = fst ` set shape"
    by (force simp: field_result_def image_iff split: prod.splits)
  with keys [of ?rs] assms(2) have "k \<notin> fst ` set (kept ?rs)" by auto
  then have n: "map_of (kept ?rs) k = None"
    by (simp add: map_of_eq_None_iff)
  have e: "map_of (filter (\<lambda>(k, x). k \<notin> set (map fst shape)) fs) k = map_of fs k"
    using assms(2) by (induction fs) force+
  from assms(1) have "out = JObj (kept ?rs @ filter (\<lambda>(k, x). k \<notin> set (map fst shape)) fs)"
    by (auto simp: zparse_object Let_def simp del: zparse.simps split: if_splits)
  with n e show ?thesis by (simp add: map_add_def)
qed

lemma minimal_search_response:
  assumes "k \<noteq> ustr ''results''" and "k \<noteq> ustr ''metadata''"
  shows "parse z SearchResponseSchema (JObj [(ustr ''results'', JObj []), (k, v)]) =
           Inr (JObj [(ustr ''results'', JObj []), (k, v)])"
    and "parse z SearchResponseSchema (JObj [(k, v), (ustr ''results'', JObj [])]) =
           Inr (JObj [(ustr ''results'', JObj []), (k, v)])"
  using assms by (simp_all add: parse_def SearchResponseSchema_def kept_def)

lemma minimal_contents_response:
  assumes "is_url z u" and "k \<noteq> ustr ''url''" and "k \<noteq> ustr ''markdown''"
    and "k \<noteq> ustr ''html''" and "k \<noteq> ustr ''metadata''"
  shows "parse z ContentsResponseSchema (JArr [JObj [(ustr ''url'', JStr u), (k, v)]]) =
           Inr (JArr [JObj [(ustr ''url'', JStr u), (k, v)]])"
    and "parse z ContentsResponseSchema (JArr [JObj [(k, v), (ustr ''url'', JStr u)]]) =
           Inr (JArr [JObj [(ustr ''url'', JStr u), (k, v)]])"
  using assms by (simp_all add: parse_def ContentsResponseSchema_def kept_def)

lemma floor_fractional_count: "\<lfloor>201 / 2 :: rat\<rfloor> = 100"
  by (rule floor_unique) simp_all

lemma parse_fractional_count:
  "parse example_zod SearchOptionsSchema (JObj [(ustr ''count'', JNum (201 / 2))]) =
     Inl [\<lparr>path = [PKey (ustr ''count'')], message = ustr ''Invalid input'', code = ustr ''invalid_type''\<rparr>,
          \<lparr>path = [PKey (ustr ''count'')], message = ustr ''Invalid input'', code = ustr ''too_big''\<rparr>]"
  by (simp add: parse_def SearchOptionsSchema_def mk_issue_def example_zod_def floor_fractional_count)

lemma digits_of_not_Nil [simp]: "digits_of n \<noteq> []"
  by (subst digits_of.simps) simp

lemma seg_string_idx [simp]: "seg_string (PIdx i) \<noteq> []"
  by simp

lemma js_join_not_Nil: "x \<noteq> [] \<Longrightarrow> js_join sep (x # xs) \<noteq> []"
  by (cases xs) auto

lemma join_path_Nil_iff:
  assumes "\<forall>sg \<in> set q. seg_string sg \<noteq> []"
  shows "join_path q = [] \<longleftrightarrow> q = []"
proof (cases q)
  case Nil
  then show ?thesis by (simp add: join_path_def)
next
  case (Cons a q')
  with assms have "seg_string a \<noteq> []" by simp
  then have "js_join (ustr ''.'') (seg_string a # map seg_string q') \<noteq> []"
    by (rule js_join_not_Nil)
  with Cons show ?thesis by (simp add: join_path_def)
qed

lemma good_path_here [simp]: "good_path p (mk_issue z p k r)"
  by (simp add: good_path_def mk_issue_def)

lemma good_path_extend:
  "good_path (p @ [sg]) e \<Longrightarrow> seg_string sg \<noteq> [] \<Longrightarrow> good_path p e"
  by (auto simp: good_path_def)

lemma check_number_path: "e \<in> set (check_number z p q c) \<Longrightarrow> good_path p e"
  by (cases c) (auto split: if_splits)

lemma outcome_issue: "e \<in> set (fst (outcome r)) \<Longrightarrow> \<exists>is. r = Inl is \<and> e \<in> set is"
  by (cases r) auto

lemma zparse_paths:
  "named_keys s \<Longrightarrow> zparse z s p v = Inl is \<Longrightarrow> e \<in> set is \<Longrightarrow> good_path p e"
proof (induction z s p v arbitrary: "is" e rule: zparse.induct)
  case (3 z checks p v)
  then show ?case
    by (cases v) (auto simp: Let_def split: if_splits dest: check_number_path)
next
  case (7 z s p v)
  show ?case
  proof (cases v)
    case (JArr xs)
    with "7.prems"(2,3) obtain i x where m: "(i, x) \<in> set (enumerate 0 xs)"
      and e: "e \<in> set (fst (outcome (zparse z s (p @ [PIdx i]) x)))"
      by (auto simp: Let_def split: if_splits)
    from outcome_issue [OF e] obtain is' where r: "zparse z s (p @ [PIdx i]) x = Inl is'"
      and e': "e \<in> set is'" by blast
    from "7.prems"(1) have "named_keys s" by simp
    from "7.IH" [OF JArr m refl this r e'] have "good_path (p @ [PIdx i]) e" .
    then show ?thesis by (rule good_path_extend) simp
  qed (use "7.prems" in auto)
next
  case (8 z s p v)
  then show ?case
    by (cases v) (auto simp: Let_def split: if_splits)
next
  case (9 z shape uk p v)
  show ?case
  proof (cases v)
    case (JObj fs)
    with "9.prems"(2,3) obtain k s where m: "(k, s) \<in> set shape"
      and e: "e \<in> set (fst (case map_of fs k of
                            None \<Rightarrow>
                              if accepts_undefined s then ([], None)
                              else ([mk_issue z (p @ [PKey k]) InvalidType None], None)
                          | Some x \<Rightarrow> outcome (zparse z s (p @ [PKey k]) x)))"
      by (auto simp: Let_def split: if_splits)
    from "9.prems"(1) m have k: "k \<noteq> []" and n: "named_keys s"
      by (auto simp: list_all_iff)
    have "good_path (p @ [PKey k]) e"
    proof (cases "map_of fs k")
      case None
      with e show ?thesis by (auto split: if_splits)
    next
      case (Some x)
      with e have "e \<in> set (fst (outcome (zparse z s (p @ [PKey k]) x)))" by simp
      from outcome_issue [OF this] obtain is' where r: "zparse z s (p @ [PKey k]) x = Inl is'"
        and e': "e \<in> set is'" by blast
      from "9.IH" [OF JObj m refl Some n r e'] show ?thesis .
    qed
    then show ?thesis by (rule good_path_extend) (simp add: k)
  qed (use "9.prems" in auto)
qed (auto split: jsvalue.splits if_splits)

lemma named_keys_schemas:
  "named_keys SearchOptionsSchema" "named_keys ContentsOptionsSchema"
  "named_keys SearchResponseSchema" "named_keys ContentsResponseSchema"
  by (simp_all add: SearchOptionsSchema_def ContentsOptionsSchema_def SearchResponseSchema_def
      ContentsResponseSchema_def WebResultSchema_def NewsResultSchema_def MetadataSchema_def)

lemma root_iff_empty_path:
  assumes "named_keys s" and "parse z s v = Inl is" and "e \<in> set is"
  shows "join_path (path e) = [] \<longleftrightarrow> path e = []"
proof -
  from zparse_paths [OF assms(1) assms(2) [unfolded parse_def] assms(3)]
  have "\<forall>sg \<in> set (path e). seg_string sg \<noteq> []"
    by (auto simp: good_path_def)
  then show ?thesis by (rule join_path_Nil_iff)
qed

lemma executeSearch_ZodError:
  "snd (executeSearch z h i) = Inl (ZodError is) \<Longrightarrow>
     (\<exists>v. parse z SearchOptionsSchema v = Inl is) \<or> (\<exists>v. parse z SearchResponseSchema v = Inl is)"
  by (auto simp: executeSearch_def Let_def split: sum.splits)

lemma executeContents_ZodError:
  "snd (executeContents z h i) = Inl (ZodError is) \<Longrightarrow>
     (\<exists>v. parse z ContentsOptionsSchema v = Inl is) \<or> (\<exists>v. parse z ContentsResponseSchema v = Inl is)"
  by (auto simp: executeContents_def Let_def split: sum.splits jsvalue.splits if_splits)

lemma try_item_ZodError:
  assumes "snd (try_item z h i) = Inl (ZodError is)"
  shows "\<exists>s v. named_keys s \<and> parse z s v = Inl is"
proof -
  from assms have "snd (executeSearch z h i) = Inl (ZodError is) \<or>
      snd (executeContents z h i) = Inl (ZodError is)"
    by (auto simp: try_item_def split: sum.splits if_splits prod.splits)
  with executeSearch_ZodError [of z h i "is"] executeContents_ZodError [of z h i "is"]
  show ?thesis
    using named_keys_schemas by blast
qed

lemma digits_of_decimal:
  "foldl (\<lambda>a d. 10 * a + (d - 48)) 0 (digits_of n) = n \<and> (\<forall>d \<in> set (digits_of n). 48 \<le> d \<and> d \<le> 57)"
proof (induction n rule: digits_of.induct)
  case (1 n)
  show ?case
  proof (cases "n < 10")
    case True
    then show ?thesis by (subst (1 2) digits_of.simps) simp
  next
    case False
    with 1 have IH: "foldl (\<lambda>a d. 10 * a + (d - 48)) 0 (digits_of (n div 10)) = n div 10"
      "\<forall>d \<in> set (digits_of (n div 10)). 48 \<le> d \<and> d \<le> 57"
      by simp_all
    have "n mod 10 < 10" by simp
    with False IH show ?thesis
      by (subst (1 2) digits_of.simps) auto
  qed
qed

lemma issue_lines:
  assumes "named_keys s" and "parse z s v = Inl issues"
  shows "errorMessage issues =
     ustr ''Validation error:'' @ [10] @
     js_join [10] (map (\<lambda>(i, e).
        ustr ''  '' @ digits_of (i + 1) @ ustr ''. '' @
        (if path e = [] then ustr ''root'' else join_path (path e)) @
        ustr '': '' @ message e) (enumerate 0 issues))"
proof -
  have "map (\<lambda>(i, e). issue_line i e) (enumerate 0 issues) =
     map (\<lambda>(i, e).
        ustr ''  '' @ digits_of (i + 1) @ ustr ''. '' @
        (if path e = [] then ustr ''root'' else join_path (path e)) @
        ustr '': '' @ message e) (enumerate 0 issues)"
  proof (rule map_cong [OF refl])
    fix x assume x: "x \<in> set (enumerate 0 issues)"
    obtain i e where ie: "x = (i, e)" by (cases x)
    with x have "e \<in> set issues" by (auto simp: in_set_enumerate_eq)
    from root_iff_empty_path [OF assms this] ie
    show "(case x of (i, e) \<Rightarrow> issue_line i e) =
        (case x of (i, e) \<Rightarrow>
          ustr ''  '' @ digits_of (i + 1) @ ustr ''. '' @
          (if path e = [] then ustr ''root'' else join_path (path e)) @
          ustr '': '' @ message e)"
      by (simp add: issue_line_def)
  qed
  then show ?thesis by (simp only: errorMessage_def)
qed

lemma try_malformed_item:
  "try_item example_zod (example_host c [malformed_item] online) 0 =
     ([], Inl (ZodError [\<lparr>path = [], message = ustr ''Invalid input'', code = ustr ''invalid_type''\<rparr>]))"
  by (simp add: try_item_def malformed_item_def executeSearch_def parse_def SearchOptionsSchema_def
      mk_issue_def example_zod_def)

section \<open>Properties: the URL list of the contents operation\<close>

text \<open>
  C4: the URL list is derived from the input string by splitting on commas, trimming
  surrounding whitespace from each piece and discarding the pieces that are empty after
  trimming. The pieces are the comma-free segments whose comma-separated concatenation is
  the input, and no other list of comma-free segments has that property; a trimmed piece is
  the piece without a whitespace prefix and a whitespace suffix, and neither starts nor
  ends with whitespace. The input \<open>"https://a.com, https://b.com ,,  "\<close> yields exactly
  \<open>["https://a.com", "https://b.com"]\<close>.
\<close>

theorem parse_urls_split_trim_filter:
  "parse_urls s = filter (\<lambda>u. u \<noteq> []) (map trim (js_split 44 s))
   \<and> js_join [44] (js_split 44 s) = s
   \<and> (\<forall>p \<in> set (js_split 44 s). 44 \<notin> set p)
   \<and> (\<forall>ps. ps \<noteq> [] \<and> (\<forall>p \<in> set ps. 44 \<notin> set p) \<and> js_join [44] ps = s \<longrightarrow> ps = js_split 44 s)
   \<and> (\<forall>p. \<exists>a b. p = a @ trim p @ b \<and> list_all is_space a \<and> list_all is_space b)
   \<and> (\<forall>p. trim p \<noteq> [] \<longrightarrow> \<not> is_space (hd (trim p)) \<and> \<not> is_space (last (trim p)))
   \<and> parse_urls (ustr ''https://a.com, https://b.com ,,  '') =
       [ustr ''https://a.com'', ustr ''https://b.com'']"
proof -
  have 1: "parse_urls s = filter (\<lambda>u. u \<noteq> []) (map trim (js_split 44 s))"
    by (simp add: parse_urls_def)
  have 2: "\<forall>p \<in> set (js_split 44 s). 44 \<notin> set p"
    using js_split_no_sep by blast
  have 3: "\<forall>ps. ps \<noteq> [] \<and> (\<forall>p \<in> set ps. 44 \<notin> set p) \<and> js_join [44] ps = s \<longrightarrow> ps = js_split 44 s"
  proof (intro allI impI)
    fix ps :: "jsstring list"
    assume a: "ps \<noteq> [] \<and> (\<forall>p \<in> set ps. 44 \<notin> set p) \<and> js_join [44] ps = s"
    then have n: "ps \<noteq> []" and c: "\<forall>p \<in> set ps. 44 \<notin> set p" and j: "js_join [44] ps = s"
      by simp_all
    from js_split_unique [OF n c] j show "ps = js_split 44 s" by simp
  qed
  have 4: "\<forall>p. \<exists>a b. p = a @ trim p @ b \<and> list_all is_space a \<and> list_all is_space b"
    using trim_decompose by blast
  have 5: "\<forall>p. trim p \<noteq> [] \<longrightarrow> \<not> is_space (hd (trim p)) \<and> \<not> is_space (last (trim p))"
    using trim_ends by blast
  have 6: "parse_urls (ustr ''https://a.com, https://b.com ,,  '') =
       [ustr ''https://a.com'', ustr ''https://b.com'']"
    by (simp add: parse_urls_def ustr_def trim_def is_space_def)
  have 7: "js_join [44] (js_split 44 s) = s"
    by (rule js_join_split)
  show ?thesis
    apply (intro conjI)
          apply (rule 1)
         apply (rule 7)
        apply (rule 2)
       apply (rule 3)
      apply (rule 4)
     apply (rule 5)
    apply (rule 6)
    done
qed

theorem parse_urls_split_trim_filter_witness:
  "parse_urls (ustr '' x ,,y'') = [ustr ''x'', ustr ''y'']
   \<and> js_join [44] (js_split 44 (ustr '' x ,,y'')) = ustr '' x ,,y''
   \<and> js_split 44 (ustr '' x ,,y'') = [ustr '' x '', ustr [], ustr ''y'']
   \<and> trim (ustr '' x '') = ustr ''x''
   \<and> \<not> is_space (hd (trim (ustr '' x '')))"
proof -
  have s: "js_split 44 (ustr '' x ,,y'') = [ustr '' x '', ustr [], ustr ''y'']"
    by (simp add: ustr_def)
  have t: "trim (ustr '' x '') = ustr ''x''"
    by (simp add: ustr_def trim_def is_space_def)
  have n: "trim (ustr '' x '') \<noteq> []"
    by (simp add: t)
  have e: "filter (\<lambda>u. u \<noteq> []) (map trim [ustr '' x '', ustr [], ustr ''y'']) = [ustr ''x'', ustr ''y'']"
    by (simp add: ustr_def trim_def is_space_def)
  note T = parse_urls_split_trim_filter [of "ustr '' x ,,y''"]
  from T have a: "parse_urls (ustr '' x ,,y'') =
      filter (\<lambda>u. u \<noteq> []) (map trim (js_split 44 (ustr '' x ,,y'')))"
    by (rule conjunct1)
  note b = T [THEN conjunct2, THEN conjunct1]
  note c = T [THEN conjunct2, THEN conjunct2, THEN conjunct2, THEN conjunct2, THEN conjunct2,
    THEN conjunct1, THEN spec, THEN mp, OF n, THEN conjunct1]
  from a have a': "parse_urls (ustr '' x ,,y'') = [ustr ''x'', ustr ''y'']"
    by (simp only: s e)
  show ?thesis
    apply (intro conjI)
        apply (rule a')
       apply (rule b)
      apply (rule s)
     apply (rule t)
    apply (rule c)
    done
qed

section \<open>Properties: the query parameters of the search request\<close>

text \<open>
  C1 (as amended): for every valid SearchOptions record, the node issues one request, a
  GET to the search endpoint with the identifying header and no body, whose query
  parameters have the required \<open>query\<close> key, and one key for each optional field that is present with a
  truthy value, carrying the caller's value unchanged. Every valid value of \<open>count\<close>,
  \<open>freshness\<close>, \<open>livecrawl\<close>, \<open>livecrawl_formats\<close> and \<open>safesearch\<close> is truthy, and
  \<open>offset\<close> is copied whenever it is present (\<open>offset = 0\<close> too), so these six fields
  produce their key exactly when present. A \<open>country\<close> or \<open>language\<close> that is the empty
  string (the form's choice "Any") is valid and produces no key. There is no other key, and
  no key occurs twice.
\<close>

theorem search_qs_truthy_fields:
  assumes "getNodeParameter h (ustr ''query'') i = Inr query"
    and "getNodeParameter h (ustr ''searchOptions'') i = Inr raw"
    and "parse z SearchOptionsSchema raw = Inr options"
  shows "\<exists>fs rq q. raw = JObj fs
     \<and> fst (executeSearch z h i) = [rq]
     \<and> http_method rq = ustr ''GET''
     \<and> url rq = ustr ''https://ydc-index.io/v1/search''
     \<and> headers rq = [(ustr ''User-Agent'', USER_AGENT)]
     \<and> qs rq = Some q
     \<and> body rq = None
     \<and> distinct (map fst q)
     \<and> map_of q = (\<lambda>k.
          if k = ustr ''query'' then Some query
          else if k \<in> {ustr ''count'', ustr ''freshness'', ustr ''livecrawl'',
                        ustr ''livecrawl_formats'', ustr ''offset'', ustr ''safesearch''}
          then map_of fs k
          else if k \<in> {ustr ''country'', ustr ''language''}
          then (if map_of fs k = Some (JStr []) then None else map_of fs k)
          else None)"
proof -
  from search_qs_lookup [OF assms(3), of query] obtain fs where raw: "raw = JObj fs"
    and m: "map_of (search_qs query options) = (\<lambda>k.
          if k = ustr ''query'' then Some query
          else if k \<in> {ustr ''count'', ustr ''freshness'', ustr ''livecrawl'',
                        ustr ''livecrawl_formats'', ustr ''offset'', ustr ''safesearch''}
          then map_of fs k
          else if k \<in> {ustr ''country'', ustr ''language''}
          then (if map_of fs k = Some (JStr []) then None else map_of fs k)
          else None)"
    by blast
  have d: "distinct (map fst (search_qs query options))"
    by (simp add: search_qs_def)
  have r: "fst (executeSearch z h i) = [search_request (search_qs query options)]"
    by (rule executeSearch_request [OF assms])
  note f = search_request_fields [of "search_qs query options"]
  show ?thesis
    apply (rule exI [of _ fs])
    apply (rule exI [of _ "search_request (search_qs query options)"])
    apply (rule exI [of _ "search_qs query options"])
    apply (intro conjI)
           apply (rule raw)
          apply (rule r)
         apply (rule f(1))
        apply (rule f(2))
       apply (rule f(3))
      apply (rule f(4))
     apply (rule f(5))
    apply (rule d)
    apply (rule m)
    done
qed

theorem search_qs_truthy_fields_witness:
  "(\<exists>fs rq q. JObj [(ustr ''offset'', JNum 0), (ustr ''count'', JNum 5)] = JObj fs
     \<and> fst (executeSearch example_zod
           (example_host False [search_item [(ustr ''offset'', JNum 0), (ustr ''count'', JNum 5)]] offline) 0)
         = [rq]
     \<and> http_method rq = ustr ''GET''
     \<and> url rq = ustr ''https://ydc-index.io/v1/search''
     \<and> headers rq = [(ustr ''User-Agent'', USER_AGENT)]
     \<and> qs rq = Some q
     \<and> body rq = None
     \<and> distinct (map fst q)
     \<and> map_of q = (\<lambda>k.
          if k = ustr ''query'' then Some (JStr (ustr ''news''))
          else if k \<in> {ustr ''count'', ustr ''freshness'', ustr ''livecrawl'',
                        ustr ''livecrawl_formats'', ustr ''offset'', ustr ''safesearch''}
          then map_of fs k
          else if k \<in> {ustr ''country'', ustr ''language''}
          then (if map_of fs k = Some (JStr []) then None else map_of fs k)
          else None))
   \<and> fst (executeSearch example_zod
       (example_host False [search_item [(ustr ''offset'', JNum 0), (ustr ''count'', JNum 5)]] offline) 0) =
     [\<lparr>http_method = ustr ''GET'', url = ustr ''https://ydc-index.io/v1/search'',
       headers = [(ustr ''User-Agent'', USER_AGENT)],
       qs = Some [(ustr ''query'', JStr (ustr ''news'')), (ustr ''count'', JNum 5), (ustr ''offset'', JNum 0)],
       body = None, json_flag = True\<rparr>]"
proof -
  let ?h = "example_host False [search_item [(ustr ''offset'', JNum 0), (ustr ''count'', JNum 5)]] offline"
  have 1: "getNodeParameter ?h (ustr ''query'') 0 = Inr (JStr (ustr ''news''))"
    by (simp add: search_item_def)
  have 2: "getNodeParameter ?h (ustr ''searchOptions'') 0 =
      Inr (JObj [(ustr ''offset'', JNum 0), (ustr ''count'', JNum 5)])"
    by (simp add: search_item_def)
  have 3: "fst (executeSearch example_zod ?h 0) =
     [\<lparr>http_method = ustr ''GET'', url = ustr ''https://ydc-index.io/v1/search'',
       headers = [(ustr ''User-Agent'', USER_AGENT)],
       qs = Some [(ustr ''query'', JStr (ustr ''news'')), (ustr ''count'', JNum 5), (ustr ''offset'', JNum 0)],
       body = None, json_flag = True\<rparr>]"
    by (simp only: request_offset_count_example search_request_def)
  show ?thesis
    by (rule conjI [OF search_qs_truthy_fields [OF 1 2 parse_offset_count_example] 3])
qed

text \<open>
  The claim as stated fails: the record \<open>{country: ""}\<close> is valid, its \<open>country\<close> field
  is present, and the query parameters of the request are the \<open>query\<close> key only.
\<close>

theorem empty_country_dropped_counterexample:
  "parse example_zod SearchOptionsSchema (JObj [(ustr ''country'', JStr [])])
     = Inr (JObj [(ustr ''country'', JStr [])])
   \<and> fst (executeSearch example_zod
       (example_host False [search_item [(ustr ''country'', JStr [])]] offline) 0) =
     [\<lparr>http_method = ustr ''GET'', url = ustr ''https://ydc-index.io/v1/search'',
       headers = [(ustr ''User-Agent'', USER_AGENT)],
       qs = Some [(ustr ''query'', JStr (ustr ''news''))],
       body = None, json_flag = True\<rparr>]"
  by (simp add: executeSearch_def search_item_def parse_empty_country_example offline_def search_qs_def
      copy_if_truthy_def copy_if_defined_def search_request_def)

section \<open>Properties: country and language codes\<close>

text \<open>
  C10: the options validator accepts any string for the search country and language
  fields; it does not restrict them to the codes the form offers. For every record whose
  only fields are \<open>country\<close> and/or \<open>language\<close> with non-empty string values, validation
  succeeds and the node issues one request, a GET to the search endpoint, whose query
  parameters are the \<open>query\<close> key and those fields with their strings unchanged.
\<close>

theorem country_language_verbatim:
  assumes "getNodeParameter h (ustr ''query'') i = Inr query"
    and "getNodeParameter h (ustr ''searchOptions'') i = Inr (JObj fs)"
    and "\<forall>(k, v) \<in> set fs. (k = ustr ''country'' \<or> k = ustr ''language'') \<and> (\<exists>s. v = JStr s \<and> s \<noteq> [])"
  shows "\<exists>options rq q. parse z SearchOptionsSchema (JObj fs) = Inr options
     \<and> fst (executeSearch z h i) = [rq]
     \<and> http_method rq = ustr ''GET''
     \<and> url rq = ustr ''https://ydc-index.io/v1/search''
     \<and> qs rq = Some q
     \<and> body rq = None
     \<and> distinct (map fst q)
     \<and> map_of q = (map_of fs)(ustr ''query'' \<mapsto> query)"
proof -
  from country_language_only_valid(1) [OF assms(3)]
  obtain options where p: "parse z SearchOptionsSchema (JObj fs) = Inr options" ..
  let ?q = "search_qs query options"
  have r: "fst (executeSearch z h i) = [search_request ?q]"
    by (rule executeSearch_request [OF assms(1,2) p])
  from search_qs_lookup [OF p, of query] have
    m: "map_of ?q = (\<lambda>k.
          if k = ustr ''query'' then Some query
          else if k \<in> {ustr ''count'', ustr ''freshness'', ustr ''livecrawl'',
                        ustr ''livecrawl_formats'', ustr ''offset'', ustr ''safesearch''}
          then map_of fs k
          else if k \<in> {ustr ''country'', ustr ''language''}
          then (if map_of fs k = Some (JStr []) then None else map_of fs k)
          else None)"
    by blast
  have "map_of ?q k = ((map_of fs)(ustr ''query'' \<mapsto> query)) k" for k
    using country_language_only_valid(2) [OF assms(3), of k]
      country_language_only_valid(3) [OF assms(3), of k]
    by (simp add: m)
  then have e: "map_of ?q = (map_of fs)(ustr ''query'' \<mapsto> query)" by (rule ext)
  have d: "distinct (map fst ?q)"
    by (simp add: search_qs_def)
  note f = search_request_fields [of ?q]
  show ?thesis
    apply (rule exI [of _ options])
    apply (rule exI [of _ "search_request ?q"])
    apply (rule exI [of _ ?q])
    apply (intro conjI)
           apply (rule p)
          apply (rule r)
         apply (rule f(1))
        apply (rule f(2))
       apply (rule f(4))
      apply (rule f(5))
     apply (rule d)
    apply (rule e)
    done
qed

theorem country_language_verbatim_witness:
  "(\<exists>options rq q.
      parse example_zod SearchOptionsSchema
        (JObj [(ustr ''country'', JStr (ustr ''Atlantis'')), (ustr ''language'', JStr (ustr ''x-klingon''))])
        = Inr options
     \<and> fst (executeSearch example_zod
           (example_host False
              [search_item [(ustr ''country'', JStr (ustr ''Atlantis'')), (ustr ''language'', JStr (ustr ''x-klingon''))]]
              offline) 0) = [rq]
     \<and> http_method rq = ustr ''GET''
     \<and> url rq = ustr ''https://ydc-index.io/v1/search''
     \<and> qs rq = Some q
     \<and> body rq = None
     \<and> distinct (map fst q)
     \<and> map_of q =
         (map_of [(ustr ''country'', JStr (ustr ''Atlantis'')), (ustr ''language'', JStr (ustr ''x-klingon''))])
           (ustr ''query'' \<mapsto> JStr (ustr ''news'')))
   \<and> fst (executeSearch example_zod
           (example_host False
              [search_item [(ustr ''country'', JStr (ustr ''Atlantis'')), (ustr ''language'', JStr (ustr ''x-klingon''))]]
              offline) 0) =
       [\<lparr>http_method = ustr ''GET'', url = ustr ''https://ydc-index.io/v1/search'',
         headers = [(ustr ''User-Agent'', USER_AGENT)],
         qs = Some [(ustr ''query'', JStr (ustr ''news'')), (ustr ''country'', JStr (ustr ''Atlantis'')),
                    (ustr ''language'', JStr (ustr ''x-klingon''))],
         body = None, json_flag = True\<rparr>]"
proof -
  let ?fs = "[(ustr ''country'', JStr (ustr ''Atlantis'')), (ustr ''language'', JStr (ustr ''x-klingon''))]"
  let ?h = "example_host False [search_item ?fs] offline"
  have 1: "getNodeParameter ?h (ustr ''query'') 0 = Inr (JStr (ustr ''news''))"
    by (simp add: search_item_def)
  have 2: "getNodeParameter ?h (ustr ''searchOptions'') 0 = Inr (JObj ?fs)"
    by (simp add: search_item_def)
  have 3: "\<forall>(k, v) \<in> set ?fs. (k = ustr ''country'' \<or> k = ustr ''language'') \<and> (\<exists>s. v = JStr s \<and> s \<noteq> [])"
    by simp
  have p: "parse example_zod SearchOptionsSchema (JObj ?fs) = Inr (JObj ?fs)"
    by (simp add: parse_def SearchOptionsSchema_def kept_def)
  have 4: "fst (executeSearch example_zod ?h 0) =
       [\<lparr>http_method = ustr ''GET'', url = ustr ''https://ydc-index.io/v1/search'',
         headers = [(ustr ''User-Agent'', USER_AGENT)],
         qs = Some [(ustr ''query'', JStr (ustr ''news'')), (ustr ''country'', JStr (ustr ''Atlantis'')),
                    (ustr ''language'', JStr (ustr ''x-klingon''))],
         body = None, json_flag = True\<rparr>]"
    by (simp add: executeSearch_def search_item_def p offline_def search_qs_def copy_if_truthy_def
        copy_if_defined_def search_request_def)
  show ?thesis
    by (rule conjI [OF country_language_verbatim [OF 1 2 3] 4])
qed

section \<open>Properties: the body of the contents request\<close>

text \<open>
  C9: for every validated ContentsOptions record and non-empty URL list, the node issues
  one request, a POST to the contents endpoint with the identifying header and no query
  parameters, whose body contains the URL list; it contains \<open>formats\<close> exactly when the caller
  supplied a non-empty array of formats, and \<open>crawl_timeout\<close> exactly when the caller
  supplied it, each with the caller's value; there is no other key. A supplied timeout
  is an integer from 1 to 60, so the truthiness test of the code and presence coincide.
\<close>

theorem contents_body_fields:
  assumes "getNodeParameter h (ustr ''urls'') i = Inr (JStr s)"
    and "getNodeParameter h (ustr ''contentsOptions'') i = Inr raw"
    and "parse z ContentsOptionsSchema raw = Inr options"
    and "parse_urls s \<noteq> []"
  shows "\<exists>fs rq b. raw = JObj fs
     \<and> fst (executeContents z h i) = [rq]
     \<and> http_method rq = ustr ''POST''
     \<and> url rq = ustr ''https://ydc-index.io/v1/contents''
     \<and> headers rq = [(ustr ''User-Agent'', USER_AGENT)]
     \<and> qs rq = None
     \<and> body rq = Some b
     \<and> distinct (map fst b)
     \<and> map_of b = (\<lambda>k.
          if k = ustr ''urls'' then Some (JArr (map JStr (parse_urls s)))
          else if k = ustr ''formats''
          then (if \<exists>x xs. map_of fs k = Some (JArr (x # xs)) then map_of fs k else None)
          else if k = ustr ''crawl_timeout'' then map_of fs k
          else None)
     \<and> (truthy (map_of fs (ustr ''crawl_timeout'')) \<longleftrightarrow> map_of fs (ustr ''crawl_timeout'') \<noteq> None)"
proof -
  from contents_body_lookup [OF assms(3), of "parse_urls s"] obtain fs where
    raw: "raw = JObj fs"
    and d: "distinct (map fst (contents_body (parse_urls s) options))"
    and m: "map_of (contents_body (parse_urls s) options) = (\<lambda>k.
          if k = ustr ''urls'' then Some (JArr (map JStr (parse_urls s)))
          else if k = ustr ''formats''
          then (if \<exists>x xs. map_of fs k = Some (JArr (x # xs)) then map_of fs k else None)
          else if k = ustr ''crawl_timeout'' then map_of fs k
          else None)"
    by blast
  from contents_options_valid [OF assms(3)] raw
  have "map_of fs (ustr ''crawl_timeout'') = None \<or>
          (\<exists>n. map_of fs (ustr ''crawl_timeout'') = Some (JNum (of_int n)) \<and> 1 \<le> n \<and> n \<le> 60)"
    by auto
  then have t: "truthy (map_of fs (ustr ''crawl_timeout'')) \<longleftrightarrow> map_of fs (ustr ''crawl_timeout'') \<noteq> None"
    by auto
  let ?b = "contents_body (parse_urls s) options"
  have r: "fst (executeContents z h i) = [contents_request ?b]"
    by (rule executeContents_request [OF assms])
  note f = contents_request_fields [of ?b]
  show ?thesis
    apply (rule exI [of _ fs])
    apply (rule exI [of _ "contents_request ?b"])
    apply (rule exI [of _ ?b])
    apply (intro conjI)
            apply (rule raw)
           apply (rule r)
          apply (rule f(1))
         apply (rule f(2))
        apply (rule f(3))
       apply (rule f(4))
      apply (rule f(5))
     apply (rule d)
    apply (rule m)
    apply (rule t)
    done
qed

theorem contents_body_fields_witness:
  "(\<exists>fs rq b. JObj [(ustr ''formats'', JArr [JStr (ustr ''markdown'')]), (ustr ''crawl_timeout'', JNum 30)] = JObj fs
     \<and> fst (executeContents example_zod
          (example_host False
             [contents_item (JStr (ustr ''https://a.com, https://b.com''))
                (JObj [(ustr ''formats'', JArr [JStr (ustr ''markdown'')]), (ustr ''crawl_timeout'', JNum 30)])]
             offline) 0) = [rq]
     \<and> http_method rq = ustr ''POST''
     \<and> url rq = ustr ''https://ydc-index.io/v1/contents''
     \<and> headers rq = [(ustr ''User-Agent'', USER_AGENT)]
     \<and> qs rq = None
     \<and> body rq = Some b
     \<and> distinct (map fst b)
     \<and> map_of b = (\<lambda>k.
          if k = ustr ''urls'' then Some (JArr (map JStr [ustr ''https://a.com'', ustr ''https://b.com'']))
          else if k = ustr ''formats''
          then (if \<exists>x xs. map_of fs k = Some (JArr (x # xs)) then map_of fs k else None)
          else if k = ustr ''crawl_timeout'' then map_of fs k
          else None)
     \<and> (truthy (map_of fs (ustr ''crawl_timeout'')) \<longleftrightarrow> map_of fs (ustr ''crawl_timeout'') \<noteq> None))
   \<and> fst (executeContents example_zod
          (example_host False
             [contents_item (JStr (ustr ''https://a.com, https://b.com''))
                (JObj [(ustr ''formats'', JArr [JStr (ustr ''markdown'')]), (ustr ''crawl_timeout'', JNum 30)])]
             offline) 0) =
       [\<lparr>http_method = ustr ''POST'', url = ustr ''https://ydc-index.io/v1/contents'',
         headers = [(ustr ''User-Agent'', USER_AGENT)],
         qs = None,
         body = Some [(ustr ''urls'', JArr [JStr (ustr ''https://a.com''), JStr (ustr ''https://b.com'')]),
                      (ustr ''formats'', JArr [JStr (ustr ''markdown'')]),
                      (ustr ''crawl_timeout'', JNum 30)],
         json_flag = True\<rparr>]"
proof -
  let ?o = "JObj [(ustr ''formats'', JArr [JStr (ustr ''markdown'')]), (ustr ''crawl_timeout'', JNum 30)]"
  let ?h = "example_host False [contents_item (JStr (ustr ''https://a.com, https://b.com'')) ?o] offline"
  have 1: "getNodeParameter ?h (ustr ''urls'') 0 = Inr (JStr (ustr ''https://a.com, https://b.com''))"
    by (simp add: contents_item_def)
  have 2: "getNodeParameter ?h (ustr ''contentsOptions'') 0 = Inr ?o"
    by (simp add: contents_item_def)
  have 4: "parse_urls (ustr ''https://a.com, https://b.com'') \<noteq> []"
    by (simp add: parse_urls_two)
  note T = contents_body_fields [OF 1 2 parse_contents_options_example 4, unfolded parse_urls_two]
  have r: "fst (executeContents example_zod ?h 0) =
      [contents_request (contents_body (parse_urls (ustr ''https://a.com, https://b.com'')) ?o)]"
    by (rule executeContents_request [OF 1 2 parse_contents_options_example 4])
  have b: "contents_body (parse_urls (ustr ''https://a.com, https://b.com'')) ?o =
      [(ustr ''urls'', JArr [JStr (ustr ''https://a.com''), JStr (ustr ''https://b.com'')]),
       (ustr ''formats'', JArr [JStr (ustr ''markdown'')]),
       (ustr ''crawl_timeout'', JNum 30)]"
    unfolding parse_urls_two
    by (simp add: contents_body_def copy_if_truthy_def copy_if_nonempty_def)
  have 5: "fst (executeContents example_zod ?h 0) =
       [\<lparr>http_method = ustr ''POST'', url = ustr ''https://ydc-index.io/v1/contents'',
         headers = [(ustr ''User-Agent'', USER_AGENT)],
         qs = None,
         body = Some [(ustr ''urls'', JArr [JStr (ustr ''https://a.com''), JStr (ustr ''https://b.com'')]),
                      (ustr ''formats'', JArr [JStr (ustr ''markdown'')]),
                      (ustr ''crawl_timeout'', JNum 30)],
         json_flag = True\<rparr>]"
    by (simp only: r b contents_request_def)
  show ?thesis
    by (rule conjI [OF T 5])
qed

section \<open>Properties: a contents item without URLs\<close>

text \<open>
  C5: when the URL string of a contents item leaves no URL after splitting, trimming and
  dropping empty pieces (as \<open>""\<close> and \<open>","\<close> do) and the options are valid, the builder
  throws the operation error "At least one URL is required" for that item, having issued
  no HTTP call. The error is a \<open>NodeOperationError\<close>, not a \<open>ZodError\<close>: the record pushed
  under continuation carries the message alone, without a violation list, and without
  continuation the error aborts the batch with the item's index.
\<close>

theorem no_urls_operation_error:
  assumes "getNodeParameter h (ustr ''operation'') i = Inr (JStr (ustr ''contents''))"
    and "getNodeParameter h (ustr ''urls'') i = Inr (JStr s)"
    and "getNodeParameter h (ustr ''contentsOptions'') i = Inr raw"
    and "parse z ContentsOptionsSchema raw = Inr options"
    and "parse_urls s = []"
  shows "executeContents z h i =
       ([], Inl (NodeOperationError (ustr ''At least one URL is required'') i))
     \<and> try_item z h i = ([], Inl (NodeOperationError (ustr ''At least one URL is required'') i))
     \<and> catch_item h i (NodeOperationError (ustr ''At least one URL is required'') i) =
         (if continueOnFail h
          then Inr \<lparr>json = JObj [(ustr ''error'', JStr (ustr ''At least one URL is required''))],
                    pairedItem = Some i\<rparr>
          else Inl (NodeApiError (Caught (NodeOperationError (ustr ''At least one URL is required'') i)) i))
     \<and> parse_urls (ustr '''') = [] \<and> parse_urls (ustr '','') = []"
proof -
  have e: "executeContents z h i =
       ([], Inl (NodeOperationError (ustr ''At least one URL is required'') i))"
    by (rule executeContents_no_urls [OF assms(2-5)])
  have t: "try_item z h i = ([], Inl (NodeOperationError (ustr ''At least one URL is required'') i))"
    by (simp add: try_item_contents [OF assms(1)] e)
  show ?thesis
    by (simp only: e t parse_urls_empty parse_urls_comma catch_item.simps simp_thms)
qed

theorem no_urls_operation_error_witness:
  "executeContents example_zod (example_host True [contents_item (JStr (ustr '','')) (JObj [])] offline) 0 =
       ([], Inl (NodeOperationError (ustr ''At least one URL is required'') 0))
     \<and> try_item example_zod (example_host True [contents_item (JStr (ustr '','')) (JObj [])] offline) 0 =
       ([], Inl (NodeOperationError (ustr ''At least one URL is required'') 0))
     \<and> catch_item (example_host True [contents_item (JStr (ustr '','')) (JObj [])] offline) 0
           (NodeOperationError (ustr ''At least one URL is required'') 0) =
         Inr \<lparr>json = JObj [(ustr ''error'', JStr (ustr ''At least one URL is required''))],
              pairedItem = Some 0\<rparr>"
proof -
  let ?h = "example_host True [contents_item (JStr (ustr '','')) (JObj [])] offline"
  have 1: "getNodeParameter ?h (ustr ''operation'') 0 = Inr (JStr (ustr ''contents''))"
    by (simp add: contents_item_def)
  have 2: "getNodeParameter ?h (ustr ''urls'') 0 = Inr (JStr (ustr '',''))"
    by (simp add: contents_item_def)
  have 3: "getNodeParameter ?h (ustr ''contentsOptions'') 0 = Inr (JObj [])"
    by (simp add: contents_item_def)
  have c: "continueOnFail ?h" by simp
  from no_urls_operation_error [OF 1 2 3 parse_empty_contents_options parse_urls_comma] c
  show ?thesis by (simp only: if_True simp_thms)
qed

section \<open>Properties: failing items\<close>



section \<open>Properties: an unknown operation\<close>

text \<open>
  C3 (as amended): an item whose operation is neither \<open>search\<close> nor \<open>contents\<close> is
  skipped: it issues no request, produces no output record and raises no error, whether
  or not the host continues on failure, and the batch goes on with the next item.
\<close>

theorem unknown_operation_skipped:
  assumes "getNodeParameter h (ustr ''operation'') i = Inr operation"
    and "operation \<noteq> JStr (ustr ''search'')"
    and "operation \<noteq> JStr (ustr ''contents'')"
  shows "try_item z h i = ([], Inr [])
     \<and> item_output z h i = []
     \<and> (i < inputLength h \<longrightarrow>
          execute_from z h i calls returnData = execute_from z h (Suc i) calls returnData)"
proof -
  have t: "try_item z h i = ([], Inr [])"
    using assms by (simp add: try_item_def)
  have "i < inputLength h \<Longrightarrow>
          execute_from z h i calls returnData = execute_from z h (Suc i) calls returnData"
    by (subst execute_from.simps) (simp add: t)
  with t show ?thesis by (simp add: item_output_def)
qed

theorem unknown_operation_skipped_witness:
  "try_item example_zod (example_host False [unknown_item, search_item []] online) 0 = ([], Inr [])
   \<and> item_output example_zod (example_host False [unknown_item, search_item []] online) 0 = []
   \<and> execute_from example_zod (example_host False [unknown_item, search_item []] online) 0 [] [] =
     execute_from example_zod (example_host False [unknown_item, search_item []] online) (Suc 0) [] []"
proof -
  let ?h = "example_host False [unknown_item, search_item []] online"
  have 1: "getNodeParameter ?h (ustr ''operation'') 0 = Inr (JStr (ustr ''delete''))"
    by (simp add: unknown_item_def)
  have 2: "JStr (ustr ''delete'') \<noteq> JStr (ustr ''search'')" by simp
  have 3: "JStr (ustr ''delete'') \<noteq> JStr (ustr ''contents'')" by simp
  have 4: "0 < inputLength ?h" by simp
  from unknown_operation_skipped [OF 1 2 3, of example_zod "[]" "[]"] 4
  show ?thesis by simp
qed

text \<open>
  The claim as stated fails: a batch of one item with the operation \<open>delete\<close> returns an
  empty output and no error, with and without continuation.
\<close>

theorem unknown_operation_counterexample:
  "execute example_zod (example_host False [unknown_item] online) = ([], Inr [[]])
   \<and> execute example_zod (example_host True [unknown_item] online) = ([], Inr [[]])"
  by (simp add: execute_def execute_from.simps try_item_def unknown_item_def)

section \<open>Properties: the complete violation list\<close>

text \<open>
  C6: a rejected value always comes with a non-empty violation list, each violation
  carrying its path, message and kind token. For an object schema (the options records)
  the list is the concatenation, in field order, of the violations of every declared
  field, so a violation of one field never hides that of another: whenever a supplied
  field is rejected by its own schema the record is rejected and all the violations of
  that field are in the list. The record \<open>{count: 0, freshness: "century"}\<close> yields both
  violations, \<open>count\<close> first.
\<close>

theorem validator_reports_all_violations:
  "(\<forall>s v issues. parse z s v = Inl issues \<longrightarrow> issues \<noteq> [])
   \<and> (\<forall>shape uk fs issues. parse z (ZObject shape uk) (JObj fs) = Inl issues \<longrightarrow>
          issues = concat (map (\<lambda>f. fst (snd (field_result z [] fs f))) shape))
   \<and> (\<forall>shape uk fs k s x field_issues.
          (k, s) \<in> set shape \<and> map_of fs k = Some x \<and> zparse z s [PKey k] x = Inl field_issues \<longrightarrow>
          (\<exists>issues. parse z (ZObject shape uk) (JObj fs) = Inl issues
             \<and> set field_issues \<subseteq> set issues))
   \<and> parse z SearchOptionsSchema
         (JObj [(ustr ''count'', JNum 0), (ustr ''freshness'', JStr (ustr ''century''))]) =
       Inl [\<lparr>path = [PKey (ustr ''count'')],
              message = zmessage z (TooSmall 1) (Some (JNum 0)),
              code = zcode z (TooSmall 1)\<rparr>,
            \<lparr>path = [PKey (ustr ''freshness'')],
              message = zmessage z (InvalidEnumValue [ustr ''day'', ustr ''week'', ustr ''month'', ustr ''year''])
                          (Some (JStr (ustr ''century''))),
              code = zcode z (InvalidEnumValue [ustr ''day'', ustr ''week'', ustr ''month'', ustr ''year''])\<rparr>]"
proof (intro conjI allI impI)
  fix s v issues
  assume "parse z s v = Inl issues"
  then show "issues \<noteq> []"
    using zparse_not_empty [of z s "[]" v] by (auto simp: parse_def)
next
  fix shape uk fs issues
  assume "parse z (ZObject shape uk) (JObj fs) = Inl issues"
  then show "issues = concat (map (\<lambda>f. fst (snd (field_result z [] fs f))) shape)"
    by (rule object_issues)
next
  fix shape uk fs k s x field_issues
  assume a: "(k, s) \<in> set shape \<and> map_of fs k = Some x \<and> zparse z s [PKey k] x = Inl field_issues"
  then have m: "(k, s) \<in> set shape" and f: "fst (snd (field_result z [] fs (k, s))) = field_issues"
    by (simp_all add: field_result_present)
  from a have "field_issues \<noteq> []"
    using zparse_not_empty [of z s "[PKey k]" x] by auto
  with f have ne: "fst (snd (field_result z [] fs (k, s))) \<noteq> []" by simp
  let ?all = "concat (map (\<lambda>f. fst (snd (field_result z [] fs f))) shape)"
  have p: "parse z (ZObject shape uk) (JObj fs) = Inl ?all"
    by (rule object_rejects [OF m ne])
  have "set field_issues \<subseteq> set ?all"
    using m f by force
  with p show "\<exists>issues. parse z (ZObject shape uk) (JObj fs) = Inl issues
             \<and> set field_issues \<subseteq> set issues"
    by blast
next
  show "parse z SearchOptionsSchema
         (JObj [(ustr ''count'', JNum 0), (ustr ''freshness'', JStr (ustr ''century''))]) =
       Inl [\<lparr>path = [PKey (ustr ''count'')],
              message = zmessage z (TooSmall 1) (Some (JNum 0)),
              code = zcode z (TooSmall 1)\<rparr>,
            \<lparr>path = [PKey (ustr ''freshness'')],
              message = zmessage z (InvalidEnumValue [ustr ''day'', ustr ''week'', ustr ''month'', ustr ''year''])
                          (Some (JStr (ustr ''century''))),
              code = zcode z (InvalidEnumValue [ustr ''day'', ustr ''week'', ustr ''month'', ustr ''year''])\<rparr>]"
    by (simp add: parse_two_violations mk_issue_def)
qed

theorem validator_reports_all_violations_witness:
  "parse example_zod SearchOptionsSchema
         (JObj [(ustr ''count'', JNum 0), (ustr ''freshness'', JStr (ustr ''century''))]) =
       Inl [\<lparr>path = [PKey (ustr ''count'')], message = ustr ''Invalid input'', code = ustr ''too_small''\<rparr>,
            \<lparr>path = [PKey (ustr ''freshness'')], message = ustr ''Invalid input'',
              code = ustr ''invalid_enum_value''\<rparr>]
   \<and> [\<lparr>path = [PKey (ustr ''count'')], message = ustr ''Invalid input'', code = ustr ''invalid_type''\<rparr>,
       \<lparr>path = [PKey (ustr ''count'')], message = ustr ''Invalid input'', code = ustr ''too_big''\<rparr>] \<noteq> []"
proof -
  note V = validator_reports_all_violations [of example_zod]
  from V have 1: "parse example_zod SearchOptionsSchema
         (JObj [(ustr ''count'', JNum 0), (ustr ''freshness'', JStr (ustr ''century''))]) =
       Inl [\<lparr>path = [PKey (ustr ''count'')], message = ustr ''Invalid input'', code = ustr ''too_small''\<rparr>,
            \<lparr>path = [PKey (ustr ''freshness'')], message = ustr ''Invalid input'',
              code = ustr ''invalid_enum_value''\<rparr>]"
    by (simp add: example_zod_def)
  from V have "\<forall>s v issues. parse example_zod s v = Inl issues \<longrightarrow> issues \<noteq> []"
    by (rule conjunct1)
  from this [rule_format, OF parse_fractional_count] 1 show ?thesis
    by (rule conjI [rotated])
qed

section \<open>Properties: open response schemas\<close>

text \<open>
  C8: a search response with only the required \<open>results\<close> object plus one unknown field,
  and a contents response whose element has only the required \<open>url\<close> plus one unknown
  field, validate successfully, and the validated output has the extra field with its
  value unchanged. More generally every valid search response keeps each undeclared
  top-level field unchanged.
\<close>

theorem response_passthrough:
  "(k \<noteq> ustr ''results'' \<and> k \<noteq> ustr ''metadata'' \<longrightarrow>
       parse z SearchResponseSchema (JObj [(ustr ''results'', JObj []), (k, v)]) =
         Inr (JObj [(ustr ''results'', JObj []), (k, v)])
     \<and> parse z SearchResponseSchema (JObj [(k, v), (ustr ''results'', JObj [])]) =
         Inr (JObj [(ustr ''results'', JObj []), (k, v)])
     \<and> (\<forall>fs out. parse z SearchResponseSchema (JObj fs) = Inr out \<longrightarrow> get_prop out k = map_of fs k))
   \<and> (is_url z u \<and> k \<noteq> ustr ''url'' \<and> k \<noteq> ustr ''markdown'' \<and> k \<noteq> ustr ''html''
        \<and> k \<noteq> ustr ''metadata'' \<longrightarrow>
       parse z ContentsResponseSchema (JArr [JObj [(ustr ''url'', JStr u), (k, v)]]) =
         Inr (JArr [JObj [(ustr ''url'', JStr u), (k, v)]])
     \<and> parse z ContentsResponseSchema (JArr [JObj [(k, v), (ustr ''url'', JStr u)]]) =
         Inr (JArr [JObj [(ustr ''url'', JStr u), (k, v)]]))"
proof (intro conjI impI allI)
  assume a: "k \<noteq> ustr ''results'' \<and> k \<noteq> ustr ''metadata''"
  then show "parse z SearchResponseSchema (JObj [(ustr ''results'', JObj []), (k, v)]) =
         Inr (JObj [(ustr ''results'', JObj []), (k, v)])"
    by (simp add: minimal_search_response)
  from a show "parse z SearchResponseSchema (JObj [(k, v), (ustr ''results'', JObj [])]) =
         Inr (JObj [(ustr ''results'', JObj []), (k, v)])"
    by (simp add: minimal_search_response)
  fix fs out
  assume "parse z SearchResponseSchema (JObj fs) = Inr out"
  then show "get_prop out k = map_of fs k"
    unfolding parse_def SearchResponseSchema_def
    by (rule passthrough_extra) (use a in simp)
next
  assume a: "is_url z u \<and> k \<noteq> ustr ''url'' \<and> k \<noteq> ustr ''markdown'' \<and> k \<noteq> ustr ''html''
        \<and> k \<noteq> ustr ''metadata''"
  then show "parse z ContentsResponseSchema (JArr [JObj [(ustr ''url'', JStr u), (k, v)]]) =
         Inr (JArr [JObj [(ustr ''url'', JStr u), (k, v)]])"
    by (simp add: minimal_contents_response)
  from a show "parse z ContentsResponseSchema (JArr [JObj [(k, v), (ustr ''url'', JStr u)]]) =
         Inr (JArr [JObj [(ustr ''url'', JStr u), (k, v)]])"
    by (simp add: minimal_contents_response)
qed

theorem response_passthrough_witness:
  "parse example_zod SearchResponseSchema
       (JObj [(ustr ''results'', JObj []), (ustr ''billing'', JObj [(ustr ''credits'', JNum 3)])]) =
     Inr (JObj [(ustr ''results'', JObj []), (ustr ''billing'', JObj [(ustr ''credits'', JNum 3)])])
   \<and> parse example_zod ContentsResponseSchema
       (JArr [JObj [(ustr ''url'', JStr (ustr ''https://a.com'')), (ustr ''lang'', JStr (ustr ''en''))]]) =
     Inr (JArr [JObj [(ustr ''url'', JStr (ustr ''https://a.com'')), (ustr ''lang'', JStr (ustr ''en''))]])"
proof -
  have k1: "ustr ''billing'' \<noteq> ustr ''results'' \<and> ustr ''billing'' \<noteq> ustr ''metadata''"
    by simp
  have k2: "is_url example_zod (ustr ''https://a.com'') \<and> ustr ''lang'' \<noteq> ustr ''url''
      \<and> ustr ''lang'' \<noteq> ustr ''markdown'' \<and> ustr ''lang'' \<noteq> ustr ''html''
      \<and> ustr ''lang'' \<noteq> ustr ''metadata''"
    by (simp add: example_zod_def ustr_def)
  note S = response_passthrough [where k = "ustr ''billing''" and z = example_zod
      and v = "JObj [(ustr ''credits'', JNum 3)]",
      THEN conjunct1, rule_format, OF k1, THEN conjunct1]
  note C = response_passthrough [where k = "ustr ''lang''" and z = example_zod
      and u = "ustr ''https://a.com''" and v = "JStr (ustr ''en'')",
      THEN conjunct2, rule_format, OF k2, THEN conjunct1]
  show ?thesis by (rule conjI [OF S C])
qed

section \<open>Properties: the message of a validation error\<close>



end
